theory Spec2Isabelle
  imports Complex_Main "HOL-Library.Sublist" "HOL-Library.AList"
begin

section \<open>Python strings\<close>

text \<open>
  A Python \<open>str\<close> is modelled as a \<open>string\<close>, a list of 8-bit characters: the text in
  its UTF-8 encoding. The helpers below are the \<open>str\<close> methods that \<open>app.py\<close> and
  \<open>urllib.robotparser\<close> call, with their ASCII behaviour (case mapping and white
  space outside ASCII are not modelled).
\<close>

definition lower_char :: "char \<Rightarrow> char" where
  "lower_char c =
     (case map_of (zip ''ABCDEFGHIJKLMNOPQRSTUVWXYZ'' ''abcdefghijklmnopqrstuvwxyz'') c of
        Some l \<Rightarrow> l
      | None \<Rightarrow> c)"

definition lower :: "string \<Rightarrow> string" where
  \<comment> \<open>\<open>s.lower()\<close>\<close>
  "lower s = map lower_char s"

fun py_in :: "string \<Rightarrow> string \<Rightarrow> bool" where
  \<comment> \<open>\<open>a in s\<close> on strings: \<open>a\<close> occurs in \<open>s\<close> as a contiguous piece\<close>
  "py_in a [] = (a = [])"
| "py_in a (c # cs) = (prefix a (c # cs) \<or> py_in a cs)"

definition isspace :: "char \<Rightarrow> bool" where
  \<comment> \<open>the ASCII characters \<open>str.isspace\<close> accepts: tab to carriage return, the four
      separators 0x1C-0x1F, and the space\<close>
  "isspace c = (c \<in> set [CHR 0x09, CHR 0x0A, CHR 0x0B, CHR 0x0C, CHR 0x0D,
                           CHR 0x1C, CHR 0x1D, CHR 0x1E, CHR 0x1F, CHR 0x20])"

definition strip :: "string \<Rightarrow> string" where
  \<comment> \<open>\<open>s.strip()\<close>\<close>
  "strip s = rev (dropWhile isspace (rev (dropWhile isspace s)))"

definition is_linebreak :: "char \<Rightarrow> bool" where
  \<comment> \<open>the ASCII line boundaries of \<open>str.splitlines\<close>\<close>
  "is_linebreak c = (c \<in> set [CHR 0x0A, CHR 0x0B, CHR 0x0C, CHR 0x0D, CHR 0x1C, CHR 0x1D, CHR 0x1E])"

fun splitlines_from :: "string \<Rightarrow> string \<Rightarrow> string list" where
  \<comment> \<open>\<open>cur\<close> is the line read so far; a carriage return followed by a line feed
      is one boundary, and a boundary at the very end opens no further line\<close>
  "splitlines_from cur [] = (if cur = [] then [] else [cur])"
| "splitlines_from cur [c] = (if is_linebreak c then [cur] else [cur @ [c]])"
| "splitlines_from cur (c # d # cs) =
     (if c = CHR 0x0D \<and> d = CHR 0x0A then cur # splitlines_from [] cs
      else if is_linebreak c then cur # splitlines_from [] (d # cs)
      else splitlines_from (cur @ [c]) (d # cs))"

definition splitlines :: "string \<Rightarrow> string list" where
  \<comment> \<open>\<open>s.splitlines()\<close>\<close>
  "splitlines s = splitlines_from [] s"

definition before_char :: "char \<Rightarrow> string \<Rightarrow> string" where
  \<comment> \<open>\<open>s.split(c, 1)[0]\<close>, and \<open>s[:s.find(c)]\<close> when \<open>c\<close> occurs in \<open>s\<close>\<close>
  "before_char c s = takeWhile (\<lambda>x. x \<noteq> c) s"

definition after_char :: "char \<Rightarrow> string \<Rightarrow> string" where
  \<comment> \<open>\<open>s.split(c, 1)[1]\<close> when \<open>c\<close> occurs in \<open>s\<close>\<close>
  "after_char c s = tl (dropWhile (\<lambda>x. x \<noteq> c) s)"

definition digit_char :: "nat \<Rightarrow> char" where
  "digit_char d = ''0123456789'' ! d"

fun str_nat :: "nat \<Rightarrow> string" where
  "str_nat n = (if n < 10 then [digit_char n] else str_nat (n div 10) @ [digit_char (n mod 10)])"

definition str_int :: "int \<Rightarrow> string" where
  \<comment> \<open>\<open>str(i)\<close>, which is what an f-string field \<open>{i}\<close> renders for an \<open>int\<close>\<close>
  "str_int i = (if i < 0 then CHR ''-'' # str_nat (nat (- i)) else str_nat (nat i))"

declare str_nat.simps [simp del]

section \<open>The network and the retrying fetcher\<close>

text \<open>
  What one HTTP GET meets: the server's final answer (status code and body); no answer
  at all (connection refused, DNS failure, timeout); a request the client gives up for
  a reason of its own, with neither a transport failure nor a failure status behind it
  (a URL without a scheme or with one it has no adapter for, an invalid URL, too many
  redirects); or a failure of the client outside its own exception hierarchy.
\<close>

datatype reply = Reply nat string | Unreachable | Refused | Crash

text \<open>
  The exceptions of the program. Three of them are members of the class
  \<open>requests.exceptions.RequestException\<close>: \<open>ConnectionError\<close> stands for its
  transport-level members (\<open>ConnectionError\<close>, \<open>Timeout\<close>), \<open>HTTPError\<close> is the one
  \<open>raise_for_status\<close> raises, and \<open>InvalidURL\<close> stands for the remaining ones
  (\<open>MissingSchema\<close>, \<open>InvalidSchema\<close>, \<open>InvalidURL\<close>, \<open>TooManyRedirects\<close>).
\<close>

datatype exn =
    ConnectionError
  | HTTPError nat
  | InvalidURL
  | OtherException
  | RetryError
  | URLError
  | ValueError

text \<open>
  The world outside the process: \<open>net w n url\<close> is what the \<open>n\<close>-th GET of the run
  (counted from 0) meets when it asks for \<open>url\<close>, so the same URL may answer
  differently at different times; \<open>requests w\<close> lists the URLs asked so far and
  \<open>sleeps w\<close> the seconds slept between retries so far, both oldest first.
\<close>

record world =
  net :: "nat \<Rightarrow> string \<Rightarrow> reply"
  requests :: "string list"
  sleeps :: "nat list"

definition http_get :: "string \<Rightarrow> world \<Rightarrow> reply \<times> world" where
  "http_get url w = (net w (length (requests w)) url, w\<lparr>requests := requests w @ [url]\<rparr>)"

definition sleep :: "nat \<Rightarrow> world \<Rightarrow> world" where
  "sleep seconds w = w\<lparr>sleeps := sleeps w @ [seconds]\<rparr>"

text \<open>
  The body of \<open>fetch_url\<close> (lines 28-31), one attempt: \<open>requests.get\<close>, then
  \<open>raise_for_status\<close>, which raises for the status codes 400 to 599. The response is
  represented by its body (\<open>resp.content\<close>, \<open>resp.text\<close>).
\<close>

definition attempt_result :: "reply \<Rightarrow> exn + string" where
  "attempt_result r =
     (case r of
        Unreachable \<Rightarrow> Inl ConnectionError
      | Refused \<Rightarrow> Inl InvalidURL
      | Crash \<Rightarrow> Inl OtherException
      | Reply status body \<Rightarrow>
          if 400 \<le> status \<and> status < 600 then Inl (HTTPError status) else Inr body)"

definition fetch_once :: "string \<Rightarrow> world \<Rightarrow> (exn + string) \<times> world" where
  "fetch_once url w = (case http_get url w of (r, w') \<Rightarrow> (attempt_result r, w'))"

text \<open>
  The arguments of the \<open>@retry\<close> decorator (lines 22-26):
  \<open>stop_after_attempt(3)\<close>, \<open>wait_exponential(multiplier=1, min=2, max=10)\<close> and
  \<open>retry_if_exception_type((requests.exceptions.RequestException,))\<close>.
\<close>

definition stop_after_attempt :: nat where
  "stop_after_attempt = 3"

fun retry_if_exception_type :: "exn \<Rightarrow> bool" where
  \<comment> \<open>\<open>isinstance(e, requests.exceptions.RequestException)\<close>\<close>
  "retry_if_exception_type ConnectionError = True"
| "retry_if_exception_type (HTTPError status) = True"
| "retry_if_exception_type InvalidURL = True"
| "retry_if_exception_type e = False"

definition retried :: "reply \<Rightarrow> bool" where
  \<comment> \<open>the attempt that meets this reply fails with an exception the decorator retries\<close>
  "retried r =
     (case attempt_result r of Inl e \<Rightarrow> retry_if_exception_type e | Inr resp \<Rightarrow> False)"

definition wait_exponential :: "nat \<Rightarrow> nat" where
  \<comment> \<open>Modelled from the spec: the wait before attempt \<open>k\<close> (\<open>k \<ge> 2\<close>) is
      \<open>min(max(2, 1 * 2^(k-2)), 10)\<close> seconds; the retry library (tenacity) that
      computes it is not under src/, the numbers 1, 2 and 10 are the decorator's.\<close>
  "wait_exponential k = min (max 2 (1 * 2 ^ (k - 2))) 10"

function fetch_url_from :: "nat \<Rightarrow> string \<Rightarrow> world \<Rightarrow> (exn + string) \<times> world" where
  \<comment> \<open>Modelled from the spec: the retry loop of the tenacity library, which is not
      under src/. \<open>k\<close> is the number of the attempt being made (from 1). A failure
      that is not retriable surfaces at once; a retriable failure of attempt 3
      surfaces as the library's \<open>RetryError\<close>; otherwise the loop sleeps and tries
      again.\<close>
  "fetch_url_from k url w =
     (case fetch_once url w of
        (Inr resp, w') \<Rightarrow> (Inr resp, w')
      | (Inl e, w') \<Rightarrow>
          if \<not> retry_if_exception_type e then (Inl e, w')
          else if stop_after_attempt \<le> k then (Inl RetryError, w')
          else fetch_url_from (Suc k) url (sleep (wait_exponential (Suc k)) w'))"
  by pat_completeness auto
termination
  by (relation "measure (\<lambda>(k, url, w). stop_after_attempt - k)") auto

declare fetch_url_from.simps [simp del]

definition fetch_url :: "string \<Rightarrow> world \<Rightarrow> (exn + string) \<times> world" where
  "fetch_url url w = fetch_url_from 1 url w"

section \<open>The robots.txt policy\<close>

text \<open>
  \<open>rp\<close> (line 18) is a \<open>urllib.robotparser.RobotFileParser\<close> of the Python standard
  library. Its classes and \<open>can_fetch\<close> follow \<open>Lib/urllib/robotparser.py\<close> of
  CPython 3.11. The functions of \<open>urllib.parse\<close> and of the XML parser it and
  \<open>app.py\<close> call are parameters, collected in \<open>lib\<close>:
  \<^item> \<open>findall_loc content\<close>: \<open>ET.fromstring(content)\<close> followed by the \<open>findall\<close> of
    line 93, the texts of the \<open>loc\<close> elements in document order; \<open>None\<close> when the
    XML parser raises. Every \<open>loc\<close> element is taken to have a text.
  \<^item> \<open>url_filename url\<close>: the path \<open>can_fetch\<close> matches rules against,
    \<open>quote(urlunparse(('', '', p.path, p.params, p.query, p.fragment)))\<close> for
    \<open>p = urlparse(unquote(url))\<close>; \<open>None\<close> when \<open>urlparse\<close> raises \<open>ValueError\<close>.
  \<^item> \<open>rule_path value\<close>: the path a rule line stores,
    \<open>quote(urlunparse(urlparse(value)))\<close>; \<open>None\<close> when \<open>urlparse\<close> raises \<open>ValueError\<close>.
  \<^item> \<open>unquote\<close>: \<open>urllib.parse.unquote\<close>.
\<close>

record lib =
  findall_loc :: "string \<Rightarrow> string list option"
  url_filename :: "string \<Rightarrow> string option"
  rule_path :: "string \<Rightarrow> string option"
  unquote :: "string \<Rightarrow> string"

record RuleLine =
  path :: string
  allowance :: bool

record Entry =
  useragents :: "string list"
  rulelines :: "RuleLine list"

record RobotFileParser =
  entries :: "Entry list"
  default_entry :: "Entry option"
  disallow_all :: bool
  allow_all :: bool
  last_checked :: bool

definition RuleLine_applies_to :: "RuleLine \<Rightarrow> string \<Rightarrow> bool" where
  "RuleLine_applies_to line filename = (path line = ''*'' \<or> prefix (path line) filename)"

fun agents_apply :: "string list \<Rightarrow> string \<Rightarrow> bool" where
  \<comment> \<open>the loop of \<open>Entry.applies_to\<close> over \<open>self.useragents\<close>\<close>
  "agents_apply [] useragent = False"
| "agents_apply (agent # agents) useragent =
     (if agent = ''*'' then True
      else if py_in (lower agent) useragent then True
      else agents_apply agents useragent)"

definition Entry_applies_to :: "Entry \<Rightarrow> string \<Rightarrow> bool" where
  \<comment> \<open>\<open>useragent.split("/")[0].lower()\<close> is the agent's name token\<close>
  "Entry_applies_to entry useragent =
     agents_apply (useragents entry) (lower (takeWhile (\<lambda>c. c \<noteq> CHR ''/'') useragent))"

fun first_rule :: "RuleLine list \<Rightarrow> string \<Rightarrow> bool" where
  \<comment> \<open>the loop of \<open>Entry.allowance\<close>: the first rule line that applies decides\<close>
  "first_rule [] filename = True"
| "first_rule (line # lines) filename =
     (if RuleLine_applies_to line filename then allowance line else first_rule lines filename)"

definition Entry_allowance :: "Entry \<Rightarrow> string \<Rightarrow> bool" where
  "Entry_allowance entry filename = first_rule (rulelines entry) filename"

fun first_entry :: "Entry list \<Rightarrow> string \<Rightarrow> Entry option" where
  \<comment> \<open>the loop of \<open>can_fetch\<close> over \<open>self.entries\<close>: the first entry that applies\<close>
  "first_entry [] useragent = None"
| "first_entry (entry # es) useragent =
     (if Entry_applies_to entry useragent then Some entry else first_entry es useragent)"

definition can_fetch :: "lib \<Rightarrow> RobotFileParser \<Rightarrow> string \<Rightarrow> string \<Rightarrow> exn + bool" where
  "can_fetch L rp useragent url =
     (if disallow_all rp then Inr False
      else if allow_all rp then Inr True
      else if \<not> last_checked rp then Inr False
      else case url_filename L url of
             None \<Rightarrow> Inl ValueError
           | Some u \<Rightarrow>
               (let filename = (if u = [] then ''/'' else u) in
                case first_entry (entries rp) useragent of
                  Some entry \<Rightarrow> Inr (Entry_allowance entry filename)
                | None \<Rightarrow>
                    (case default_entry rp of
                       Some entry \<Rightarrow> Inr (Entry_allowance entry filename)
                     | None \<Rightarrow> Inr True)))"

definition new_Entry :: Entry where
  \<comment> \<open>\<open>Entry()\<close>; its fields \<open>delay\<close> and \<open>req_rate\<close>, which \<open>can_fetch\<close> never
      reads, are left out\<close>
  "new_Entry = \<lparr>useragents = [], rulelines = []\<rparr>"

definition new_RobotFileParser :: RobotFileParser where
  \<comment> \<open>\<open>RobotFileParser()\<close>; \<open>last_checked\<close> holds whether the time stamp is set\<close>
  "new_RobotFileParser =
     \<lparr>entries = [], default_entry = None, disallow_all = False, allow_all = False,
      last_checked = False\<rparr>"

definition robots_url :: string where
  \<comment> \<open>line 19\<close>
  "robots_url = ''https://www.bonappetit.com/robots.txt''"

definition add_entry :: "RobotFileParser \<Rightarrow> Entry \<Rightarrow> RobotFileParser" where
  \<comment> \<open>\<open>_add_entry\<close>: the first entry naming the agent \<open>*\<close> becomes the default entry\<close>
  "add_entry rp entry =
     (if ''*'' \<in> set (useragents entry)
      then (if default_entry rp = None then rp\<lparr>default_entry := Some entry\<rparr> else rp)
      else rp\<lparr>entries := entries rp @ [entry]\<rparr>)"

definition new_RuleLine :: "lib \<Rightarrow> string \<Rightarrow> bool \<Rightarrow> exn + RuleLine" where
  \<comment> \<open>\<open>RuleLine(path, allowance)\<close>: an empty \<open>Disallow:\<close> allows everything\<close>
  "new_RuleLine L v allow =
     (case rule_path L v of
        None \<Rightarrow> Inl ValueError
      | Some p \<Rightarrow> Inr \<lparr>path = p, allowance = (if v = [] \<and> \<not> allow then True else allow)\<rparr>)"

type_synonym parser = "nat \<times> Entry \<times> RobotFileParser"

definition parse_line :: "lib \<Rightarrow> string \<Rightarrow> parser \<Rightarrow> exn + parser" where
  \<comment> \<open>one round of the loop of \<open>parse\<close>; the parser's \<open>state\<close> is 0 at the start,
      1 after a user-agent line and 2 after a rule line\<close>
  "parse_line L line0 s =
     (case s of (state0, entry0, rp0) \<Rightarrow>
        let (state, entry, rp) =
              (if line0 = []
               then (if state0 = 1 then (0, new_Entry, rp0)
                     else if state0 = 2 then (0, new_Entry, add_entry rp0 entry0)
                     else (state0, entry0, rp0))
               else (state0, entry0, rp0));
            line = strip (before_char CHR ''#'' line0)
        in if line = [] then Inr (state, entry, rp)
           else if CHR '':'' \<notin> set line then Inr (state, entry, rp)
           else
             let k = lower (strip (before_char CHR '':'' line));
                 v = unquote L (strip (after_char CHR '':'' line))
             in if k = ''user-agent'' then
                  (let (entry', rp') =
                         (if state = 2 then (new_Entry, add_entry rp entry) else (entry, rp))
                   in Inr (1, entry'\<lparr>useragents := useragents entry' @ [v]\<rparr>, rp'))
                else if k = ''disallow'' then
                  (if state \<noteq> 0
                   then (case new_RuleLine L v False of
                           Inl e \<Rightarrow> Inl e
                         | Inr r \<Rightarrow> Inr (2, entry\<lparr>rulelines := rulelines entry @ [r]\<rparr>, rp))
                   else Inr (state, entry, rp))
                else if k = ''allow'' then
                  (if state \<noteq> 0
                   then (case new_RuleLine L v True of
                           Inl e \<Rightarrow> Inl e
                         | Inr r \<Rightarrow> Inr (2, entry\<lparr>rulelines := rulelines entry @ [r]\<rparr>, rp))
                   else Inr (state, entry, rp))
                else if k = ''crawl-delay'' \<or> k = ''request-rate'' then
                  Inr (if state \<noteq> 0 then 2 else state, entry, rp)
                else Inr (state, entry, rp))"

fun parse_lines :: "lib \<Rightarrow> string list \<Rightarrow> parser \<Rightarrow> exn + parser" where
  "parse_lines L [] s = Inr s"
| "parse_lines L (line # lines) s =
     (case parse_line L line s of
        Inl e \<Rightarrow> Inl e
      | Inr s' \<Rightarrow> parse_lines L lines s')"

definition parse :: "lib \<Rightarrow> RobotFileParser \<Rightarrow> string list \<Rightarrow> exn + RobotFileParser" where
  \<comment> \<open>\<open>RobotFileParser.parse\<close>: \<open>self.modified()\<close> stamps the time first, and an open
      entry with rules is added at the end\<close>
  "parse L rp lines =
     (case parse_lines L lines (0, new_Entry, rp\<lparr>last_checked := True\<rparr>) of
        Inl e \<Rightarrow> Inl e
      | Inr (state, entry, rp') \<Rightarrow> Inr (if state = 2 then add_entry rp' entry else rp'))"

definition rp_read :: "lib \<Rightarrow> RobotFileParser \<Rightarrow> world \<Rightarrow> (exn + RobotFileParser) \<times> world" where
  \<comment> \<open>\<open>rp.read()\<close> (line 20): \<open>urlopen\<close> raises \<open>HTTPError\<close> for a final status outside
      200-299 and \<open>URLError\<close> when there is no answer or it gives the request up;
      \<open>read\<close> handles the first only\<close>
  "rp_read L rp w =
     (case http_get robots_url w of
        (Unreachable, w') \<Rightarrow> (Inl URLError, w')
      | (Refused, w') \<Rightarrow> (Inl URLError, w')
      | (Crash, w') \<Rightarrow> (Inl OtherException, w')
      | (Reply status raw, w') \<Rightarrow>
          if 200 \<le> status \<and> status < 300 then
            (case parse L rp (splitlines raw) of
               Inl e \<Rightarrow> (Inl e, w')
             | Inr rp' \<Rightarrow> (Inr rp', w'))
          else if status = 401 \<or> status = 403 then (Inr (rp\<lparr>disallow_all := True\<rparr>), w')
          else if 400 \<le> status \<and> status < 500 then (Inr (rp\<lparr>allow_all := True\<rparr>), w')
          else (Inr rp, w'))"

section \<open>The robots.txt summary\<close>

record robots_summary =
  allowed :: "string list"
  disallowed :: "string list"
  crawl_delay :: "string option"
  sitemaps :: "string list"

definition summary_line :: "string \<Rightarrow> robots_summary \<Rightarrow> robots_summary" where
  \<comment> \<open>lines 39-43\<close>
  "summary_line line0 s =
     (let line = strip line0; v = strip (after_char CHR '':'' line)
      in if prefix ''allow:'' (lower line) then s\<lparr>allowed := allowed s @ [v]\<rparr>
         else if prefix ''disallow:'' (lower line) then s\<lparr>disallowed := disallowed s @ [v]\<rparr>
         else if prefix ''crawl-delay:'' (lower line) then s\<lparr>crawl_delay := Some v\<rparr>
         else if prefix ''sitemap:'' (lower line) then s\<lparr>sitemaps := sitemaps s @ [v]\<rparr>
         else s)"

definition summarize :: "string \<Rightarrow> robots_summary" where
  \<comment> \<open>lines 36-43: the four values that lines 44-49 then print into the summary text\<close>
  "summarize txt =
     foldl (\<lambda>s line. summary_line line s)
       \<lparr>allowed = [], disallowed = [], crawl_delay = None, sitemaps = []\<rparr> (splitlines txt)"

definition get_robots_summary :: "world \<Rightarrow> (exn + robots_summary) \<times> world" where
  \<comment> \<open>lines 34-50; the result is the summary by its four values\<close>
  "get_robots_summary w =
     (case fetch_url robots_url w of
        (Inl e, w') \<Rightarrow> (Inl e, w')
      | (Inr txt, w') \<Rightarrow> (Inr (summarize txt), w'))"

definition startup :: "lib \<Rightarrow> world \<Rightarrow> (exn + RobotFileParser \<times> robots_summary) \<times> world" where
  \<comment> \<open>what the script does before any crawl: lines 18-20 build \<open>rp\<close>, line 135
      builds the summary; an exception of either ends the script\<close>
  "startup L w =
     (case rp_read L new_RobotFileParser w of
        (Inl e, w') \<Rightarrow> (Inl e, w')
      | (Inr rp, w') \<Rightarrow>
          (case get_robots_summary w' of
             (Inl e, w'') \<Rightarrow> (Inl e, w'')
           | (Inr summary, w'') \<Rightarrow> (Inr (rp, summary), w'')))"

section \<open>Sitemap enumeration\<close>

definition sitemap_url :: "int \<Rightarrow> int \<Rightarrow> int \<Rightarrow> string" where
  \<comment> \<open>line 89\<close>
  "sitemap_url year month week =
     ''https://www.bonappetit.com/sitemap.xml?year='' @ str_int year
       @ ''&month='' @ str_int month @ ''&week='' @ str_int week"

definition months_of :: "int \<Rightarrow> int \<Rightarrow> int \<Rightarrow> int \<Rightarrow> int \<Rightarrow> int list" where
  \<comment> \<open>lines 84-86: \<open>range(m_start, m_end+1)\<close>\<close>
  "months_of start_year start_month end_year end_month year =
     (let m_start = (if year = start_year then start_month else 1);
          m_end = (if year = end_year then end_month else 12)
      in [m_start..m_end])"

definition weeks_of :: "int \<Rightarrow> int \<Rightarrow> int \<Rightarrow> int \<Rightarrow> int \<Rightarrow> int list" where
  \<comment> \<open>lines 87-88: \<open>range(1,5)\<close>, left by \<open>break\<close> at the first week past \<open>end_week\<close>
      in the end month of the end year\<close>
  "weeks_of end_year end_month end_week year month =
     takeWhile (\<lambda>week. \<not> (year = end_year \<and> month = end_month \<and> week > end_week)) [1..4]"

definition buckets :: "int \<Rightarrow> int \<Rightarrow> int \<Rightarrow> int \<Rightarrow> int \<Rightarrow> int \<Rightarrow> (int \<times> int \<times> int) list" where
  \<comment> \<open>the (year, month, week) triples for which the three nested loops of lines 83-88
      reach the loop body, in the order they reach it; \<open>start_week\<close> is a parameter
      of the function that no line reads\<close>
  "buckets start_year start_month start_week end_year end_month end_week =
     [(year, month, week).
        year \<leftarrow> [start_year..end_year],
        month \<leftarrow> months_of start_year start_month end_year end_month year,
        week \<leftarrow> weeks_of end_year end_month end_week year month]"

type_synonym sitemap_map = "(string \<times> string list) list"

type_synonym crawl_result = "sitemap_map \<times> nat \<times> nat"

definition fetch_sitemap :: "lib \<Rightarrow> string \<Rightarrow> world \<Rightarrow> string list \<times> world" where
  \<comment> \<open>lines 90-95: the \<open>try\<close> block and its bare \<open>except\<close>\<close>
  "fetch_sitemap L url w =
     (case fetch_url url w of
        (Inl e, w') \<Rightarrow> ([], w')
      | (Inr content, w') \<Rightarrow>
          (case findall_loc L content of
             None \<Rightarrow> ([], w')
           | Some urls \<Rightarrow> (urls, w')))"

fun crawlable_of :: "lib \<Rightarrow> RobotFileParser \<Rightarrow> string list \<Rightarrow> exn + string list" where
  \<comment> \<open>line 96: the list comprehension; an exception of \<open>can_fetch\<close> leaves it\<close>
  "crawlable_of L rp [] = Inr []"
| "crawlable_of L rp (u # us) =
     (case can_fetch L rp ''*'' u of
        Inl e \<Rightarrow> Inl e
      | Inr ok \<Rightarrow>
          (case crawlable_of L rp us of
             Inl e \<Rightarrow> Inl e
           | Inr rest \<Rightarrow> Inr (if ok then u # rest else rest)))"

definition bucket_body ::
  "lib \<Rightarrow> RobotFileParser \<Rightarrow> int \<times> int \<times> int \<Rightarrow> crawl_result \<Rightarrow> world
     \<Rightarrow> (exn + crawl_result) \<times> world" where
  \<comment> \<open>lines 89-99; the dict \<open>sitemap_map\<close> keeps its keys in insertion order\<close>
  "bucket_body L rp b acc w =
     (case (b, acc) of ((year, month, week), (sitemap_map, total_checked, total_crawlable)) \<Rightarrow>
        (let url = sitemap_url year month week;
             (urls, w') = fetch_sitemap L url w
         in (case crawlable_of L rp urls of
               Inl e \<Rightarrow> (Inl e, w')
             | Inr crawlable \<Rightarrow>
                 (Inr (AList.update url crawlable sitemap_map,
                       total_checked + length urls,
                       total_crawlable + length crawlable), w'))))"

fun for_buckets ::
  "lib \<Rightarrow> RobotFileParser \<Rightarrow> (int \<times> int \<times> int) list \<Rightarrow> crawl_result \<Rightarrow> world
     \<Rightarrow> (exn + crawl_result) \<times> world" where
  \<comment> \<open>the loop body run at each bucket in turn; an exception ends the loops\<close>
  "for_buckets L rp [] acc w = (Inr acc, w)"
| "for_buckets L rp (b # bs) acc w =
     (case bucket_body L rp b acc w of
        (Inl e, w') \<Rightarrow> (Inl e, w')
      | (Inr acc', w') \<Rightarrow> for_buckets L rp bs acc' w')"

definition get_content_urls ::
  "lib \<Rightarrow> RobotFileParser \<Rightarrow> int \<Rightarrow> int \<Rightarrow> int \<Rightarrow> int \<Rightarrow> int \<Rightarrow> int \<Rightarrow> world
     \<Rightarrow> (exn + crawl_result) \<times> world" where
  \<comment> \<open>lines 81-100, without the \<open>@cache\<close> wrapper\<close>
  "get_content_urls L rp start_year start_month start_week end_year end_month end_week w =
     for_buckets L rp
       (buckets start_year start_month start_week end_year end_month end_week) ([], 0, 0) w"

definition bucket_url :: "int \<times> int \<times> int \<Rightarrow> string" where
  "bucket_url b = (case b of (year, month, week) \<Rightarrow> sitemap_url year month week)"

fun earlier :: "int \<times> int \<times> int \<Rightarrow> int \<times> int \<times> int \<Rightarrow> bool" where
  \<comment> \<open>chronological order of buckets\<close>
  "earlier (y, m, k) (y', m', k') = (y < y' \<or> (y = y' \<and> (m < m' \<or> (m = m' \<and> k < k'))))"

fun sitemap_entries ::
  "lib \<Rightarrow> RobotFileParser \<Rightarrow> (int \<times> int \<times> int) list \<Rightarrow> world
     \<Rightarrow> (string \<times> string list \<times> string list) list" where
  \<comment> \<open>what the loop body computes at each bucket, in order: the bucket URL (line 89),
      the discovered \<open>urls\<close> (lines 90-95) and the \<open>crawlable\<close> ones (line 96),
      up to the first bucket at which \<open>can_fetch\<close> raises\<close>
  "sitemap_entries L rp [] w = []"
| "sitemap_entries L rp ((year, month, week) # bs) w =
     (let url = sitemap_url year month week;
          (urls, w') = fetch_sitemap L url w
      in (case crawlable_of L rp urls of
            Inl e \<Rightarrow> []
          | Inr crawlable \<Rightarrow> (url, urls, crawlable) # sitemap_entries L rp bs w'))"

section \<open>The result cache\<close>

type_synonym cache_key = "string \<times> int list \<times> (string \<times> int) list"

type_synonym cache_data = "cache_key \<Rightarrow> crawl_result option"

definition cache_key :: "int \<Rightarrow> int \<Rightarrow> int \<Rightarrow> int \<Rightarrow> int \<Rightarrow> int \<Rightarrow> cache_key" where
  \<comment> \<open>line 74 for a call with six positional arguments, as line 157 makes it:
      \<open>(func.__name__, args, tuple(sorted(kwargs.items())))\<close>\<close>
  "cache_key start_year start_month start_week end_year end_month end_week =
     (''get_content_urls'',
      [start_year, start_month, start_week, end_year, end_month, end_week], [])"

definition get_content_urls_cached ::
  "lib \<Rightarrow> RobotFileParser \<Rightarrow> int \<Rightarrow> int \<Rightarrow> int \<Rightarrow> int \<Rightarrow> int \<Rightarrow> int \<Rightarrow> cache_data \<times> world
     \<Rightarrow> (exn + crawl_result) \<times> cache_data \<times> world" where
  \<comment> \<open>lines 70-80: \<open>wrapper\<close> around \<open>get_content_urls\<close>; an exception of the
      wrapped function stores nothing\<close>
  "get_content_urls_cached L rp start_year start_month start_week end_year end_month end_week s =
     (case s of (cache_data, w) \<Rightarrow>
        (let k = cache_key start_year start_month start_week end_year end_month end_week
         in (case cache_data k of
               Some r \<Rightarrow> (Inr r, cache_data, w)
             | None \<Rightarrow>
                 (case get_content_urls L rp start_year start_month start_week
                         end_year end_month end_week w of
                    (Inl e, w') \<Rightarrow> (Inl e, cache_data, w')
                  | (Inr r, w') \<Rightarrow> (Inr r, cache_data(k \<mapsto> r), w')))))"

text \<open>
  \<open>app.py\<close> is a Streamlit script: it is executed from its first line to its last
  each time the page is opened and each time a widget is used, and what one execution
  binds (\<open>rp\<close>, the decorated \<open>get_content_urls\<close> with its \<open>cache_data\<close>) is not kept
  for the next. What passes from one execution to the next is the world.
\<close>

definition cache :: cache_data where
  \<comment> \<open>lines 70-78, applied at line 80: \<open>cache(func)\<close> binds a new dictionary
      \<open>cache_data = {}\<close> (line 71) and returns \<open>wrapper\<close>; this is the dictionary
      the wrapper starts from\<close>
  "cache = Map.empty"

definition script_run ::
  "lib \<Rightarrow> bool \<Rightarrow> int \<Rightarrow> int \<Rightarrow> int \<Rightarrow> int \<Rightarrow> int \<Rightarrow> int \<Rightarrow> world
     \<Rightarrow> (exn + crawl_result option) \<times> world" where
  \<comment> \<open>one execution of the script, from line 1 to the call of lines 157-160, the only
      call of \<open>get_content_urls\<close>: lines 18-20 build \<open>rp\<close>, line 80 applies the
      decorator, line 135 builds the summary, and when \<open>Run Crawl\<close> was pressed
      (line 153) the wrapper is called with the six sidebar values. The result is
      what that call returns, \<open>None\<close> when the button was not pressed; an exception
      of the call is caught and logged at line 210\<close>
  "script_run L pressed start_year start_month start_week end_year end_month end_week w =
     (case startup L w of
        (Inl e, w') \<Rightarrow> (Inl e, w')
      | (Inr (rp, summary), w') \<Rightarrow>
          if pressed then
            (case get_content_urls_cached L rp start_year start_month start_week
                    end_year end_month end_week (cache, w') of
               (Inl e, cache_data, w'') \<Rightarrow> (Inl e, w'')
             | (Inr r, cache_data, w'') \<Rightarrow> (Inr (Some r), w''))
          else (Inr None, w'))"

section \<open>The crawlability score\<close>

text \<open>
  A Python \<open>float\<close> is an IEEE 754 binary64 number: a finite one is a rational
  \<open>m * 2^e\<close> with \<open>|m| < 2^53\<close> and \<open>e \<ge> -1074\<close>. Division of two \<open>int\<close>s and
  multiplication of \<open>float\<close>s give the exact result rounded to the nearest such number,
  a tie going to the even \<open>m\<close>. \<open>binary64 x\<close> is that rounding for \<open>0 \<le> x < 2^1024\<close>
  (larger values, which overflow, do not arise in the score).
\<close>

function bit_length :: "int \<Rightarrow> nat" where
  \<comment> \<open>\<open>n.bit_length()\<close> for \<open>n \<ge> 0\<close>\<close>
  "bit_length n = (if n \<le> 0 then 0 else Suc (bit_length (n div 2)))"
  by pat_completeness auto
termination
  by (relation "measure nat") auto

declare bit_length.simps [simp del]

definition floor_log2 :: "rat \<Rightarrow> int" where
  \<comment> \<open>for \<open>x > 0\<close>, the \<open>k\<close> with \<open>2^k \<le> x < 2^(k+1)\<close>: the binary exponent of \<open>x\<close>\<close>
  "floor_log2 x =
     (case quotient_of x of (p, q) \<Rightarrow>
        let k = int (bit_length p) - int (bit_length q)
        in if 2 powi k \<le> x then k else k - 1)"

definition round_half_even :: "rat \<Rightarrow> int" where
  \<comment> \<open>the nearest integer, the even one of the two when \<open>x\<close> lies half-way\<close>
  "round_half_even x =
     (let n = \<lfloor>x\<rfloor>; r = x - of_int n
      in if r < 1 / 2 then n
         else if 1 / 2 < r then n + 1
         else if even n then n else n + 1)"

definition binary64 :: "rat \<Rightarrow> rat" where
  \<comment> \<open>\<open>e\<close> is the exponent of the last of the 53 bits, not below that of the
      subnormal numbers\<close>
  "binary64 x =
     (if x = 0 then 0
      else let e = max (floor_log2 x - 52) (- 1074)
           in of_int (round_half_even (x / 2 powi e)) * 2 powi e)"

definition crawl_score :: "nat \<Rightarrow> nat \<Rightarrow> rat" where
  \<comment> \<open>line 162: \<open>total_crawlable/total_checked\<close> is the quotient of two \<open>int\<close>s
      rounded to a \<open>float\<close>, and its product with 100 is rounded again\<close>
  "crawl_score total_checked total_crawlable =
     (if total_checked \<noteq> 0
      then binary64 (binary64 (of_nat total_crawlable / of_nat total_checked) * 100)
      else 0)"

section \<open>Classification of pages\<close>

text \<open>
  The HTML parser is a parameter: \<open>BeautifulSoup content\<close> is the parsed page, \<open>None\<close>
  when the constructor raises, and \<open>select_title\<close> and \<open>select_desc\<close> give the stripped
  text of the first element matching the selector of line 110 and of line 111, \<open>None\<close>
  when \<open>select_one\<close> finds no element. Logging (line 113) is not modelled.
\<close>

record 'soup bs4 =
  BeautifulSoup :: "string \<Rightarrow> 'soup option"
  select_title :: "'soup \<Rightarrow> string option"
  select_desc :: "'soup \<Rightarrow> string option"

record recipe =
  title :: string
  description :: string
  link :: string

definition extract_recipe :: "'soup bs4 \<Rightarrow> 'soup \<Rightarrow> string \<Rightarrow> recipe" where
  \<comment> \<open>lines 110-112\<close>
  "extract_recipe B soup u =
     \<lparr>title = (case select_title B soup of Some t \<Rightarrow> t | None \<Rightarrow> ''No title''),
      description = (case select_desc B soup of Some d \<Rightarrow> d | None \<Rightarrow> ''No description''),
      link = u\<rparr>"

definition extract_body ::
  "'soup bs4 \<Rightarrow> string \<Rightarrow> recipe list \<times> string list \<Rightarrow> world
     \<Rightarrow> (recipe list \<times> string list) \<times> world" where
  \<comment> \<open>lines 106-115, the body of the loop for the URL \<open>u\<close>\<close>
  "extract_body B u acc w =
     (case acc of (recipes, js_heavy) \<Rightarrow>
        (case fetch_url u w of
           (Inl e, w') \<Rightarrow> ((recipes, js_heavy @ [u]), w')
         | (Inr content, w') \<Rightarrow>
             (case BeautifulSoup B content of
                None \<Rightarrow> ((recipes, js_heavy @ [u]), w')
              | Some soup \<Rightarrow>
                  if py_in ''/recipe/'' u
                  then ((recipes @ [extract_recipe B soup u], js_heavy), w')
                  else ((recipes, js_heavy), w'))))"

fun extract_loop ::
  "'soup bs4 \<Rightarrow> string list \<Rightarrow> recipe list \<times> string list \<Rightarrow> world
     \<Rightarrow> (recipe list \<times> string list) \<times> world" where
  "extract_loop B [] acc w = (acc, w)"
| "extract_loop B (u # us) acc w =
     (case extract_body B u acc w of (acc', w') \<Rightarrow> extract_loop B us acc' w')"

definition extract_all_recipes ::
  "'soup bs4 \<Rightarrow> string list \<Rightarrow> world \<Rightarrow> (recipe list \<times> string list) \<times> world" where
  \<comment> \<open>lines 103-116\<close>
  "extract_all_recipes B urls w = extract_loop B urls ([], []) w"

section \<open>Example inputs\<close>

text \<open>
  Stand-ins for the library parameters, for the examples only: a sitemap document is
  written as the texts of its \<open>loc\<close> elements, one per line, and a body that starts
  with \<open><html\<close> is not XML; a URL \<open>https://host/path\<close> has the filename \<open>/path\<close>,
  which is what \<open>urllib.parse\<close> computes when the path holds only letters, digits
  and \<open>/ . - _\<close>; rule paths and values of that kind are left as they are.
\<close>

definition example_lib :: lib where
  "example_lib =
     \<lparr>findall_loc = (\<lambda>content. if prefix ''<html'' content then None
                                 else Some (splitlines content)),
      url_filename = (\<lambda>url. Some (dropWhile (\<lambda>c. c \<noteq> CHR ''/'') (drop 8 url))),
      rule_path = Some,
      unquote = (\<lambda>v. v)\<rparr>"

definition rules_for_all :: "RuleLine list \<Rightarrow> RobotFileParser" where
  \<comment> \<open>the parser after reading a robots.txt with one group, for the agent \<open>*\<close>\<close>
  "rules_for_all rules =
     \<lparr>entries = [], default_entry = Some \<lparr>useragents = [''*''], rulelines = rules\<rparr>,
      disallow_all = False, allow_all = False, last_checked = True\<rparr>"

definition quiet :: "(nat \<Rightarrow> string \<Rightarrow> reply) \<Rightarrow> world" where
  \<comment> \<open>the world before the first request\<close>
  "quiet answers = \<lparr>net = answers, requests = [], sleeps = []\<rparr>"

definition january_sitemap :: "nat \<Rightarrow> string \<Rightarrow> reply" where
  \<comment> \<open>the sitemap of week 1 of January 2024 lists five pages; nothing else exists\<close>
  "january_sitemap n url =
     (if url = sitemap_url 2024 1 1
      then Reply 200
        ''https://www.bonappetit.com/recipe/a\<newline>https://www.bonappetit.com/admin/b\<newline>https://www.bonappetit.com/recipe/c\<newline>https://www.bonappetit.com/admin/d\<newline>https://www.bonappetit.com/story/e''
      else Reply 404 [])"

definition flaky :: "nat \<Rightarrow> string \<Rightarrow> reply" where
  \<comment> \<open>no answer to the first request, status 503 to the second, then status 200\<close>
  "flaky n url = (if n = 0 then Unreachable else if n = 1 then Reply 503 [] else Reply 200 ''ok'')"

definition offline :: "nat \<Rightarrow> string \<Rightarrow> reply" where
  "offline n url = Unreachable"

definition crashing :: "nat \<Rightarrow> string \<Rightarrow> reply" where
  \<comment> \<open>every request fails outside the exception hierarchy of \<open>requests\<close>\<close>
  "crashing n url = Crash"

definition http_only :: "nat \<Rightarrow> string \<Rightarrow> reply" where
  \<comment> \<open>every page exists, but \<open>requests\<close> sends nothing for a URL without the scheme
      \<open>http\<close> or \<open>https\<close>, such as the relative URL \<open>/recipe/pasta\<close>: it raises
      \<open>MissingSchema\<close>\<close>
  "http_only n url = (if prefix ''http'' url then Reply 200 ''ok'' else Refused)"

definition small_site :: "nat \<Rightarrow> string \<Rightarrow> reply" where
  \<comment> \<open>a site with a robots.txt that forbids \<open>/admin/\<close> and one sitemap, which lists
      three pages\<close>
  "small_site n url =
     (if url = robots_url then Reply 200 ''User-agent: *\<newline>Disallow: /admin/''
      else if url = sitemap_url 2024 1 1
      then Reply 200
        ''https://www.bonappetit.com/recipe/a\<newline>https://www.bonappetit.com/admin/b\<newline>https://www.bonappetit.com/admin/c''
      else Reply 404 [])"

definition example_bs4 :: "string list bs4" where
  \<comment> \<open>a page is written as lines \<open>h1:title\<close> and \<open>p:description\<close>; an empty body does
      not parse\<close>
  "example_bs4 =
     \<lparr>BeautifulSoup = (\<lambda>content. if content = [] then None else Some (splitlines content)),
      select_title = (\<lambda>soup. case filter (prefix ''h1:'') soup of
                                 [] \<Rightarrow> None | l # ls \<Rightarrow> Some (drop 3 l)),
      select_desc = (\<lambda>soup. case filter (prefix ''p:'') soup of
                                [] \<Rightarrow> None | l # ls \<Rightarrow> Some (drop 2 l))\<rparr>"

definition three_pages :: "nat \<Rightarrow> string \<Rightarrow> reply" where
  \<comment> \<open>a recipe page without a title, a story page, and nothing else\<close>
  "three_pages n url =
     (if url = ''https://www.bonappetit.com/recipe/pasta'' then Reply 200 ''p:Fresh pasta.''
      else if url = ''https://www.bonappetit.com/story/salt'' then Reply 200 ''h1:Salt''
      else Unreachable)"

definition html_then_sitemap :: "nat \<Rightarrow> string \<Rightarrow> reply" where
  \<comment> \<open>the sitemap of week 1 answers with an HTML page, that of week 2 lists one URL\<close>
  "html_then_sitemap n url =
     (if url = sitemap_url 2024 1 1 then Reply 200 ''<html>Service unavailable</html>''
      else if url = sitemap_url 2024 1 2 then Reply 200 ''https://www.bonappetit.com/recipe/a''
      else Unreachable)"


section \<open>Bucket URLs are distinct\<close>

lemma below_ten: "(n::nat) < 10 \<Longrightarrow> n \<in> {0, 1, 2, 3, 4, 5, 6, 7, 8, 9}"
  by auto

lemma digit_char_inj: "a < 10 \<Longrightarrow> b < 10 \<Longrightarrow> digit_char a = digit_char b \<Longrightarrow> a = b"
  by (drule below_ten, drule below_ten) (auto simp: digit_char_def)

lemma digit_char_plain: "d < 10 \<Longrightarrow> digit_char d \<noteq> CHR ''-'' \<and> digit_char d \<noteq> CHR ''&''"
  by (drule below_ten) (auto simp: digit_char_def)

lemma str_nat_nonempty: "str_nat n \<noteq> []"
  by (subst str_nat.simps) simp

lemma str_nat_plain: "c \<in> set (str_nat n) \<Longrightarrow> c \<noteq> CHR ''-'' \<and> c \<noteq> CHR ''&''"
proof (induction n rule: str_nat.induct)
  case (1 n)
  show ?case
  proof (cases "n < 10")
    case True
    with "1.prems" have "c = digit_char n" by (subst (asm) str_nat.simps) simp
    with True show ?thesis by (simp add: digit_char_plain)
  next
    case False
    with "1.prems" have "c \<in> set (str_nat (n div 10)) \<or> c = digit_char (n mod 10)"
      by (subst (asm) str_nat.simps) auto
    with False "1.IH" show ?thesis by (auto simp: digit_char_plain)
  qed
qed

lemma str_nat_inj: "str_nat n = str_nat m \<Longrightarrow> n = m"
proof (induction n arbitrary: m rule: str_nat.induct)
  case (1 n)
  have small: "\<And>k. k < 10 \<Longrightarrow> str_nat k = [digit_char k]"
    by (subst str_nat.simps) simp
  have big: "\<And>k. \<not> k < 10 \<Longrightarrow> str_nat k = str_nat (k div 10) @ [digit_char (k mod 10)]"
    by (subst str_nat.simps) simp
  show ?case
  proof (cases "n < 10")
    case n: True
    show ?thesis
    proof (cases "m < 10")
      case True
      with n "1.prems" show ?thesis by (simp add: small digit_char_inj)
    next
      case False
      with n "1.prems" str_nat_nonempty [of "m div 10"] show ?thesis
        by (auto simp: small big)
    qed
  next
    case n: False
    show ?thesis
    proof (cases "m < 10")
      case True
      with n "1.prems" str_nat_nonempty [of "n div 10"] show ?thesis
        by (auto simp: small big)
    next
      case False
      with n "1.prems" have "str_nat (n div 10) = str_nat (m div 10)"
        and d: "digit_char (n mod 10) = digit_char (m mod 10)"
        by (simp_all add: big)
      with n "1.IH" have "n div 10 = m div 10" by simp
      moreover from d have "n mod 10 = m mod 10" by (simp add: digit_char_inj)
      ultimately show ?thesis by (metis div_mult_mod_eq)
    qed
  qed
qed

lemma str_int_plain: "CHR ''&'' \<notin> set (str_int i)"
  using str_nat_plain by (auto simp: str_int_def)

lemma str_int_inj: "str_int i = str_int j \<Longrightarrow> i = j"
proof -
  assume eq: "str_int i = str_int j"
  have hd_nat: "\<And>n. hd (str_nat n) \<noteq> CHR ''-''"
    using str_nat_plain str_nat_nonempty by (meson hd_in_set)
  show ?thesis
  proof (cases "i < 0")
    case i: True
    show ?thesis
    proof (cases "j < 0")
      case True
      with i eq have "nat (- i) = nat (- j)" by (simp add: str_int_def str_nat_inj)
      with i True show ?thesis by simp
    next
      case False
      with i eq have "hd (str_nat (nat j)) = CHR ''-''" by (simp add: str_int_def) (metis list.sel(1))
      with hd_nat show ?thesis by simp
    qed
  next
    case i: False
    show ?thesis
    proof (cases "j < 0")
      case True
      with i eq have "hd (str_nat (nat i)) = CHR ''-''" by (simp add: str_int_def)
      with hd_nat show ?thesis by simp
    next
      case False
      with i eq have "nat i = nat j" by (simp add: str_int_def str_nat_inj)
      with i False show ?thesis by simp
    qed
  qed
qed

lemma takeWhile_upto_char: "c \<notin> set zs \<Longrightarrow> takeWhile (\<lambda>x. x \<noteq> c) (zs @ c # t) = zs"
  by (induction zs) auto

lemma split_at_char:
  assumes "c \<notin> set xs" "c \<notin> set ys" "xs @ c # r = ys @ c # r'"
  shows "xs = ys \<and> r = r'"
proof -
  from assms(1) have "takeWhile (\<lambda>x. x \<noteq> c) (xs @ c # r) = xs"
    by (rule takeWhile_upto_char)
  moreover from assms(2) have "takeWhile (\<lambda>x. x \<noteq> c) (ys @ c # r') = ys"
    by (rule takeWhile_upto_char)
  ultimately have "xs = ys" using assms(3) by simp
  with assms(3) show ?thesis by simp
qed

lemma sitemap_url_inj:
  "sitemap_url y m k = sitemap_url y' m' k' \<Longrightarrow> y = y' \<and> m = m' \<and> k = k'"
proof -
  assume eq: "sitemap_url y m k = sitemap_url y' m' k'"
  then have 1: "str_int y @ CHR ''&'' # (''month='' @ str_int m @ ''&week='' @ str_int k)
      = str_int y' @ CHR ''&'' # (''month='' @ str_int m' @ ''&week='' @ str_int k')"
    by (simp add: sitemap_url_def)
  from split_at_char [OF str_int_plain str_int_plain 1]
  have y: "str_int y = str_int y'"
    and 2: "str_int m @ CHR ''&'' # (''week='' @ str_int k) = str_int m' @ CHR ''&'' # (''week='' @ str_int k')"
    by simp_all
  from split_at_char [OF str_int_plain str_int_plain 2]
  have "str_int m = str_int m'" and "str_int k = str_int k'" by simp_all
  with y show ?thesis by (simp add: str_int_inj)
qed

section \<open>The order of enumeration\<close>

lemma sorted_wrt_concat_map:
  assumes "\<And>x. x \<in> set xs \<Longrightarrow> sorted_wrt P (f x)"
      and "sorted_wrt (\<lambda>x y. \<forall>a\<in>set (f x). \<forall>b\<in>set (f y). P a b) xs"
  shows "sorted_wrt P (concat (map f xs))"
  using assms by (induction xs) (auto simp: sorted_wrt_append)

lemma sorted_wrt_weeks: "sorted_wrt (<) (weeks_of ey em ew y m)"
  unfolding weeks_of_def by (rule sorted_wrt_takeWhile) (rule sorted_wrt_upto)

lemma sorted_wrt_months: "sorted_wrt (<) (months_of sy sm ey em y)"
  unfolding months_of_def Let_def by (rule sorted_wrt_upto)

lemma buckets_nested:
  "buckets sy sm sw ey em ew =
     concat (map (\<lambda>y. concat (map (\<lambda>m. map (\<lambda>k. (y, m, k)) (weeks_of ey em ew y m))
                                 (months_of sy sm ey em y))) [sy..ey])"
  by (simp add: buckets_def)

lemma month_sorted:
  "sorted_wrt earlier (map (\<lambda>k. (y, m, k)) (weeks_of ey em ew y m))"
  using sorted_wrt_weeks [of ey em ew y m] by (simp add: sorted_wrt_map)

lemma year_sorted:
  "sorted_wrt earlier
     (concat (map (\<lambda>m. map (\<lambda>k. (y, m, k)) (weeks_of ey em ew y m)) (months_of sy sm ey em y)))"
proof (rule sorted_wrt_concat_map
    [where f = "\<lambda>m. map (\<lambda>k. (y, m, k)) (weeks_of ey em ew y m)" and P = earlier])
  show "sorted_wrt earlier (map (\<lambda>k. (y, m, k)) (weeks_of ey em ew y m))" for m
    by (rule month_sorted)
  have "sorted_wrt (<) (months_of sy sm ey em y)" by (rule sorted_wrt_months)
  then show "sorted_wrt (\<lambda>m m'. \<forall>a\<in>set (map (\<lambda>k. (y, m, k)) (weeks_of ey em ew y m)).
            \<forall>b\<in>set (map (\<lambda>k. (y, m', k)) (weeks_of ey em ew y m')). earlier a b)
          (months_of sy sm ey em y)"
    by (rule sorted_wrt_mono_rel [rotated]) auto
qed

lemma buckets_sorted: "sorted_wrt earlier (buckets sy sm sw ey em ew)"
  unfolding buckets_nested
proof (rule sorted_wrt_concat_map
    [where f = "\<lambda>y. concat (map (\<lambda>m. map (\<lambda>k. (y, m, k)) (weeks_of ey em ew y m))
                                 (months_of sy sm ey em y))" and P = earlier])
  show "sorted_wrt earlier (concat (map (\<lambda>m. map (\<lambda>k. (y, m, k)) (weeks_of ey em ew y m))
                                 (months_of sy sm ey em y)))" for y
    by (rule year_sorted)
  have "sorted_wrt (<) [sy..ey]" by (rule sorted_wrt_upto)
  then show "sorted_wrt (\<lambda>y y'.
      \<forall>a\<in>set (concat (map (\<lambda>m. map (\<lambda>k. (y, m, k)) (weeks_of ey em ew y m))
                                 (months_of sy sm ey em y))).
      \<forall>b\<in>set (concat (map (\<lambda>m. map (\<lambda>k. (y', m, k)) (weeks_of ey em ew y' m))
                                 (months_of sy sm ey em y'))). earlier a b) [sy..ey]"
    by (rule sorted_wrt_mono_rel [rotated]) auto
qed

lemma sorted_wrt_irrefl_distinct: "sorted_wrt P xs \<Longrightarrow> (\<And>x. \<not> P x x) \<Longrightarrow> distinct xs"
  by (induction xs) auto

lemma buckets_distinct: "distinct (buckets sy sm sw ey em ew)"
  by (rule sorted_wrt_irrefl_distinct [OF buckets_sorted]) auto

lemma weeks_of_cases:
  "weeks_of ey em ew y m =
     (if y = ey \<and> m = em
      then (if ew < 1 then [] else if ew < 2 then [1] else if ew < 3 then [1, 2]
            else if ew < 4 then [1, 2, 3] else [1, 2, 3, 4])
      else [1, 2, 3, 4])"
proof -
  have "[1..4::int] = [1, 2, 3, 4]" by code_simp
  then show ?thesis by (auto simp: weeks_of_def)
qed

lemma weeks_of_member:
  "k \<in> set (weeks_of ey em ew y m) \<longleftrightarrow> 1 \<le> k \<and> k \<le> 4 \<and> \<not> (y = ey \<and> m = em \<and> ew < k)"
  unfolding weeks_of_cases by (simp, presburger)

lemma months_of_member:
  "m \<in> set (months_of sy sm ey em y) \<longleftrightarrow>
     (if y = sy then sm else 1) \<le> m \<and> m \<le> (if y = ey then em else 12)"
  by (simp add: months_of_def)

lemma buckets_member:
  "(y, m, k) \<in> set (buckets sy sm sw ey em ew) \<longleftrightarrow>
     sy \<le> y \<and> y \<le> ey \<and> (if y = sy then sm else 1) \<le> m \<and> m \<le> (if y = ey then em else 12)
     \<and> 1 \<le> k \<and> k \<le> 4 \<and> \<not> (y = ey \<and> m = em \<and> ew < k)"
proof -
  have "(y, m, k) \<in> set (buckets sy sm sw ey em ew) \<longleftrightarrow>
      y \<in> set [sy..ey] \<and> m \<in> set (months_of sy sm ey em y) \<and> k \<in> set (weeks_of ey em ew y m)"
    unfolding buckets_nested by (simp add: image_iff)
  then show ?thesis
    unfolding weeks_of_member months_of_member by simp
qed

lemma earlier_asym: "earlier a b \<Longrightarrow> \<not> earlier b a"
  by (cases a; cases b) auto

lemma sorted_wrt_last:
  assumes "sorted_wrt P xs" "x \<in> set xs" "x \<noteq> last xs"
  shows "P x (last xs)"
proof -
  from assms(2) have ne: "xs \<noteq> []" by auto
  then have xs: "xs = butlast xs @ [last xs]" by simp
  with assms(2,3) have "x \<in> set (butlast xs)"
    by (metis Un_iff empty_iff insert_iff list.simps(15) set_append set_empty)
  moreover from assms(1) xs have "sorted_wrt P (butlast xs @ [last xs])" by simp
  ultimately show ?thesis by (simp add: sorted_wrt_append)
qed

lemma sorted_wrt_hd:
  assumes "sorted_wrt P xs" "x \<in> set xs" "x \<noteq> hd xs"
  shows "P (hd xs) x"
  using assms by (cases xs) auto

lemma buckets_last:
  assumes "start_year < end_year \<or> (start_year = end_year \<and> start_month \<le> end_month)"
      and "1 \<le> end_month" and "1 \<le> end_week" and "end_week \<le> 4"
  shows "last (buckets start_year start_month start_week end_year end_month end_week)
           = (end_year, end_month, end_week)"
proof (rule ccontr)
  let ?bs = "buckets start_year start_month start_week end_year end_month end_week"
  let ?e = "(end_year, end_month, end_week)"
  assume neq: "last ?bs \<noteq> ?e"
  from assms have mem: "?e \<in> set ?bs"
    by (auto simp: buckets_member)
  then have "?bs \<noteq> []" by auto
  then have "last ?bs \<in> set ?bs" by simp
  moreover obtain y m k where l: "last ?bs = (y, m, k)" by (cases "last ?bs")
  ultimately have "(y, m, k) \<in> set ?bs" by simp
  with neq l have "earlier (y, m, k) ?e"
    by (auto simp: buckets_member split: if_splits)
  moreover from sorted_wrt_last [OF buckets_sorted mem] neq have "earlier ?e (last ?bs)"
    by auto
  ultimately show False using l earlier_asym by metis
qed

lemma buckets_hd:
  assumes "start_year < end_year \<or> (start_year = end_year \<and> start_month \<le> end_month)"
      and "start_month \<le> 12" and "1 \<le> end_week"
  shows "hd (buckets start_year start_month start_week end_year end_month end_week)
           = (start_year, start_month, 1)"
proof (rule ccontr)
  let ?bs = "buckets start_year start_month start_week end_year end_month end_week"
  let ?s = "(start_year, start_month, 1)"
  assume neq: "hd ?bs \<noteq> ?s"
  from assms have mem: "?s \<in> set ?bs"
    by (auto simp: buckets_member)
  then have "?bs \<noteq> []" by auto
  then have "hd ?bs \<in> set ?bs" by simp
  moreover obtain y m k where h: "hd ?bs = (y, m, k)" by (cases "hd ?bs")
  ultimately have "(y, m, k) \<in> set ?bs" by simp
  with neq h have "earlier ?s (y, m, k)"
    by (auto simp: buckets_member split: if_splits)
  moreover from sorted_wrt_hd [OF buckets_sorted mem] neq have "earlier (hd ?bs) ?s"
    by auto
  ultimately show False using h earlier_asym by metis
qed

section \<open>The retry loop unfolded\<close>

lemma fetch_once_eq:
  "fetch_once url w =
     (attempt_result (net w (length (requests w)) url), w\<lparr>requests := requests w @ [url]\<rparr>)"
  by (simp add: fetch_once_def http_get_def)

lemma fetch_url_from_step:
  "fetch_url_from k url w =
     (let r = net w (length (requests w)) url; w' = w\<lparr>requests := requests w @ [url]\<rparr>
      in if \<not> retried r then (attempt_result r, w')
         else if stop_after_attempt \<le> k then (Inl RetryError, w')
         else fetch_url_from (Suc k) url (sleep (wait_exponential (Suc k)) w'))"
  by (subst fetch_url_from.simps)
     (auto simp: fetch_once_eq retried_def Let_def split: sum.splits)

lemma wait_exponential_bounds: "2 \<le> wait_exponential k \<and> wait_exponential k \<le> 10"
  by (simp add: wait_exponential_def)

lemma wait_exponential_mono: "mono wait_exponential"
proof (rule monoI)
  fix j k :: nat
  assume jk: "j \<le> k"
  define a b :: nat where "a = 2 ^ (j - 2)" and "b = 2 ^ (k - 2)"
  from jk have "a \<le> b"
    unfolding a_def b_def by (intro power_increasing) auto
  then have "min (max 2 (1 * a)) 10 \<le> min (max 2 (1 * b)) 10"
    by (auto simp: min_def max_def)
  then show "wait_exponential j \<le> wait_exponential k"
    unfolding wait_exponential_def a_def b_def .
qed

lemma fetch_url_cases:
  "fetch_url url w =
     (let n = length (requests w);
          r1 = net w n url; r2 = net w (n + 1) url; r3 = net w (n + 2) url
      in if \<not> retried r1 then
           (attempt_result r1, w\<lparr>requests := requests w @ [url]\<rparr>)
         else if \<not> retried r2 then
           (attempt_result r2,
            w\<lparr>requests := requests w @ [url, url], sleeps := sleeps w @ [wait_exponential 2]\<rparr>)
         else
           (if retried r3 then Inl RetryError else attempt_result r3,
            w\<lparr>requests := requests w @ [url, url, url],
              sleeps := sleeps w @ [wait_exponential 2, wait_exponential 3]\<rparr>))"
  unfolding fetch_url_def
  apply (subst fetch_url_from_step)
  apply (subst fetch_url_from_step)
  apply (subst fetch_url_from_step)
  apply (simp add: Let_def stop_after_attempt_def sleep_def numeral_2_eq_2 numeral_3_eq_3)
  done

lemma fetch_url_net: "net (snd (fetch_url url w)) = net w"
  using fetch_url_cases [of url w] by (auto simp: Let_def split: if_splits)

lemma fetch_url_requests:
  "length (requests w) < length (requests (snd (fetch_url url w)))
   \<and> prefix (requests w) (requests (snd (fetch_url url w)))"
  using fetch_url_cases [of url w] by (auto simp: Let_def split: if_splits)

section \<open>Rounding to binary64\<close>

lemma bit_length_bounds:
  "0 < n \<Longrightarrow> 2 ^ (bit_length n - 1) \<le> n \<and> n < 2 ^ bit_length n"
proof (induction n rule: bit_length.induct)
  case (1 n)
  show ?case
  proof (cases "n = 1")
    case True
    have "bit_length 1 = 1"
      by (subst bit_length.simps, subst bit_length.simps) simp
    with True show ?thesis by simp
  next
    case False
    with "1.prems" have pos: "0 < n div 2" by simp
    with "1.prems" "1.IH" have IH: "2 ^ (bit_length (n div 2) - 1) \<le> n div 2"
      "n div 2 < 2 ^ bit_length (n div 2)" by simp_all
    from "1.prems" have step: "bit_length n = Suc (bit_length (n div 2))"
      by (subst bit_length.simps) simp
    from pos have "0 < bit_length (n div 2)"
      by (subst bit_length.simps) simp
    then obtain b where b: "bit_length (n div 2) = Suc b" by (cases "bit_length (n div 2)") auto
    from IH show ?thesis unfolding step b by simp presburger
  qed
qed

lemma floor_log2_bounds:
  assumes "0 < x"
  shows "2 powi floor_log2 x \<le> x \<and> x < 2 powi (floor_log2 x + 1)"
proof -
  obtain p q where pq: "quotient_of x = (p, q)" by (cases "quotient_of x")
  then have q: "0 < q" by (rule quotient_of_denom_pos)
  from pq have x: "x = of_int p / of_int q" by (rule quotient_of_div)
  with assms q have p: "0 < p" by (simp add: zero_less_divide_iff)
  define a b where "a = bit_length p" and "b = bit_length q"
  from bit_length_bounds [OF p] have pa: "p < 2 ^ a" by (simp add: a_def)
  from bit_length_bounds [OF q] have qb: "2 ^ (b - 1) \<le> q" by (simp add: b_def)
  from q have "0 < b" unfolding b_def by (subst bit_length.simps) simp
  then obtain b' where b': "b = Suc b'" by (cases b) auto
  have "x < 2 powi (int a - int b + 1)"
  proof -
    from pa have "(of_int p :: rat) < 2 ^ a"
      by (metis of_int_less_iff of_int_numeral of_int_power)
    moreover from qb have "(2 :: rat) ^ b' \<le> of_int q"
      unfolding b' by simp
    ultimately have "x < 2 ^ a / 2 ^ b'"
      unfolding x using q p by (intro frac_less) auto
    also have "\<dots> = 2 powi (int a - int b')"
      by (simp add: power_int_diff)
    also have "int a - int b' = int a - int b + 1" by (simp add: b')
    finally show ?thesis .
  qed
  moreover have "\<not> 2 powi (int a - int b) \<le> x \<Longrightarrow> 2 powi (int a - int b - 1) \<le> x"
  proof -
    from bit_length_bounds [OF p] have "2 ^ (a - 1) \<le> p" by (simp add: a_def)
    then have 1: "(2 :: rat) ^ (a - 1) \<le> of_int p"
      by (metis of_int_le_iff of_int_numeral of_int_power)
    from bit_length_bounds [OF q] have "q < 2 ^ b" by (simp add: b_def)
    then have 2: "(of_int q :: rat) \<le> 2 ^ b"
      by (metis less_imp_le of_int_le_iff of_int_numeral of_int_power)
    from p have "0 < a" unfolding a_def by (subst bit_length.simps) simp
    then obtain a' where a': "a = Suc a'" by (cases a) auto
    have "2 powi (int a - int b - 1) = (2 :: rat) ^ a' / 2 ^ b"
      unfolding a' by (simp add: power_int_diff)
    also have "\<dots> \<le> x"
      unfolding x using 1 2 q p by (intro frac_le) (auto simp: a')
    finally show ?thesis .
  qed
  ultimately show ?thesis
    unfolding floor_log2_def pq a_def b_def
    by (auto simp: Let_def)
qed

lemma round_half_even_near: "\<bar>of_int (round_half_even y) - y\<bar> \<le> 1 / 2"
  unfolding round_half_even_def Let_def by (auto simp: abs_if) linarith+

lemma round_half_even_le: "y \<le> of_int N \<Longrightarrow> round_half_even y \<le> N"
  unfolding round_half_even_def Let_def
  by (auto simp: floor_le_iff)

lemma round_half_even_nonneg: "0 \<le> y \<Longrightarrow> 0 \<le> round_half_even y"
  unfolding round_half_even_def Let_def by auto


lemma two_powi_less: "(2 :: rat) powi m < 2 powi n \<Longrightarrow> m < n"
  using power_int_increasing [of n m "2 :: rat"] by (cases "m < n") auto

lemma binary64_nonneg: "0 \<le> x \<Longrightarrow> 0 \<le> binary64 x"
  unfolding binary64_def Let_def
  by (auto intro!: mult_nonneg_nonneg round_half_even_nonneg divide_nonneg_nonneg)

lemma floor_log2_less:
  assumes "0 < x" "x < 2 powi k"
  shows "floor_log2 x < k"
proof -
  from floor_log2_bounds [OF assms(1)] assms(2) have "(2 :: rat) powi floor_log2 x < 2 powi k"
    by simp
  then show ?thesis by (rule two_powi_less)
qed

lemma floor_log2_ge:
  assumes "0 < x" "2 powi k \<le> x"
  shows "k \<le> floor_log2 x"
proof -
  from floor_log2_bounds [OF assms(1)] assms(2) have "(2 :: rat) powi k < 2 powi (floor_log2 x + 1)"
    by simp
  then have "k < floor_log2 x + 1" by (rule two_powi_less)
  then show ?thesis by simp
qed

lemma binary64_le_int:
  assumes x: "0 \<le> x" and le: "x \<le> of_int N" and small: "x < 2 ^ 53"
  shows "binary64 x \<le> of_int N"
proof (cases "x = 0")
  case True
  with le show ?thesis by (simp add: binary64_def)
next
  case False
  with x have pos: "0 < x" by simp
  define e where "e = max (floor_log2 x - 52) (- 1074)"
  from small have "x < 2 powi 53" by simp
  with pos have "floor_log2 x < 53" by (rule floor_log2_less)
  then have e: "e \<le> 0" by (simp add: e_def)
  define d where "d = nat (- e)"
  from e have pw: "(2 :: rat) powi e = 1 / 2 ^ d"
    by (simp add: d_def power_int_def field_simps)
  have "x / 2 powi e \<le> of_int (N * 2 ^ d)"
    using le by (simp add: pw)
  then have "round_half_even (x / 2 powi e) \<le> N * 2 ^ d"
    by (rule round_half_even_le)
  then have "(of_int (round_half_even (x / 2 powi e)) :: rat) \<le> of_int (N * 2 ^ d)"
    by (simp only: of_int_le_iff)
  then have "of_int (round_half_even (x / 2 powi e)) * 2 powi e \<le> (of_int N :: rat)"
    by (simp add: pw field_simps)
  with False show ?thesis
    by (simp add: binary64_def Let_def e_def)
qed

lemma binary64_error:
  assumes normal: "2 powi (- 1022) \<le> x"
  shows "\<bar>binary64 x - x\<bar> \<le> x / 2 ^ 53"
proof -
  have "(0 :: rat) < 2 powi (- 1022)" by simp
  with normal have pos: "0 < x" by linarith
  from pos normal have f: "- 1022 \<le> floor_log2 x" by (rule floor_log2_ge)
  define e where "e = floor_log2 x - 52"
  from f have max: "max (floor_log2 x - 52) (- 1074) = e" by (simp add: e_def)
  define y where "y = x / 2 powi e"
  have p: "(0 :: rat) < 2 powi e" by simp
  have xy: "x = y * 2 powi e" by (simp add: y_def)
  from pos have b: "binary64 x = of_int (round_half_even y) * 2 powi e"
    by (simp add: binary64_def Let_def max y_def)
  have "binary64 x - x = (of_int (round_half_even y) - y) * 2 powi e"
    unfolding b by (simp add: y_def left_diff_distrib)
  then have "\<bar>binary64 x - x\<bar> = \<bar>of_int (round_half_even y) - y\<bar> * 2 powi e"
    by (simp add: abs_mult)
  also have "\<dots> \<le> 1 / 2 * 2 powi e"
    using round_half_even_near [of y] p by (intro mult_right_mono) auto
  also have "1 / 2 * (2 :: rat) powi e = 2 powi floor_log2 x / 2 ^ 53"
    by (simp add: e_def power_int_diff)
  also have "\<dots> \<le> x / 2 ^ 53"
    using floor_log2_bounds [OF pos] by (simp add: divide_right_mono)
  finally show ?thesis .
qed

lemma crawl_score_range:
  assumes "ta \<le> tc"
  shows "0 \<le> crawl_score tc ta \<and> crawl_score tc ta \<le> 100"
proof (cases "tc = 0")
  case True
  then show ?thesis by (simp add: crawl_score_def)
next
  case False
  define x :: rat where "x = of_nat ta / of_nat tc"
  from assms False have x: "0 \<le> x" "x \<le> 1" by (simp_all add: x_def)
  define q where "q = binary64 x"
  from x have q0: "0 \<le> q" unfolding q_def by (intro binary64_nonneg)
  from x have "binary64 x \<le> of_int 1" by (intro binary64_le_int) auto
  then have q1: "q \<le> 1" by (simp add: q_def)
  from q0 have p0: "0 \<le> q * 100" by simp
  from q1 have p1: "q * 100 \<le> of_int 100" by simp
  from q1 have p2: "q * 100 < 2 ^ 53" by simp
  from p0 have "0 \<le> binary64 (q * 100)" by (rule binary64_nonneg)
  moreover from p0 p1 p2 have "binary64 (q * 100) \<le> of_int 100" by (rule binary64_le_int)
  ultimately have "0 \<le> binary64 (q * 100) \<and> binary64 (q * 100) \<le> 100" by simp
  with False show ?thesis by (simp add: crawl_score_def q_def x_def)
qed

lemma crawl_score_error:
  assumes tc: "tc \<noteq> 0" "tc \<le> 2 ^ 1022"
  shows "\<bar>crawl_score tc ta - 100 * of_nat ta / of_nat tc\<bar> \<le> 100 * of_nat ta / of_nat tc / 2 ^ 51"
proof (cases "ta = 0")
  case True
  with tc show ?thesis by (simp add: crawl_score_def binary64_def)
next
  case False
  define x :: rat where "x = of_nat ta / of_nat tc"
  from tc have "(of_nat tc :: rat) \<le> of_nat (2 ^ 1022)" by (simp only: of_nat_le_iff)
  then have tc': "(of_nat tc :: rat) \<le> 2 ^ 1022" by simp
  from False have "(1 :: rat) \<le> of_nat ta" by simp
  with tc tc' have "1 / 2 ^ 1022 \<le> x"
    unfolding x_def by (intro frac_le) auto
  then have normal: "2 powi (- 1022) \<le> x"
    by (simp add: power_int_minus field_simps)
  have "(0 :: rat) < 2 powi (- 1022)" by simp
  with normal have pos: "0 < x" by linarith
  define q where "q = binary64 x"
  define d :: rat where "d = 2 ^ 53"
  have d: "4 \<le> d" by (simp add: d_def)
  have d51: "(2 :: rat) ^ 51 = d / 4" by (simp add: d_def)
  from binary64_error [OF normal] have qx: "\<bar>q - x\<bar> \<le> x / d" by (simp add: q_def d_def)
  then have lo: "x - x / d \<le> q" and hi: "q \<le> x + x / d" by (simp_all add: abs_le_iff)
  from d have dpos: "0 < d" by simp
  from pos dpos have xd0: "0 \<le> x / d" by simp
  from pos d have "x / d \<le> x / 4" by (intro divide_left_mono) simp_all
  note xd = xd0 this
  then have "x \<le> (x - x / d) * 100" using pos by simp
  also have "\<dots> \<le> q * 100" using lo by (intro mult_right_mono) simp_all
  finally have "2 powi (- 1022) \<le> q * 100" using normal by simp
  from binary64_error [OF this]
  have sq: "\<bar>binary64 (q * 100) - q * 100\<bar> \<le> q * 100 / d" by (simp add: d_def)
  have "\<bar>binary64 (q * 100) - 100 * x\<bar> \<le> \<bar>binary64 (q * 100) - q * 100\<bar> + 100 * \<bar>q - x\<bar>"
    by (simp add: abs_if)
  also have "\<dots> \<le> q * 100 / d + 100 * (x / d)"
    using sq qx by (intro add_mono) simp_all
  also have "\<dots> \<le> (x + x / d) * 100 / d + 100 * (x / d)"
  proof -
    from hi have "q * 100 \<le> (x + x / d) * 100" by (intro mult_right_mono) simp_all
    with dpos have "q * 100 / d \<le> (x + x / d) * 100 / d" by (intro divide_right_mono) simp_all
    then show ?thesis by (rule add_right_mono)
  qed
  also have "\<dots> = 100 * (x / d) * (2 + 1 / d)"
    using dpos by (simp add: field_simps)
  also have "\<dots> \<le> 100 * (x / d) * 4"
    using xd d dpos by (intro mult_left_mono) (simp_all add: field_simps)
  also have "\<dots> = 100 * x / 2 ^ 51"
    unfolding d51 by simp
  finally have "\<bar>binary64 (q * 100) - 100 * x\<bar> \<le> 100 * x / 2 ^ 51" .
  with tc show ?thesis by (simp add: crawl_score_def q_def x_def)
qed

section \<open>The enumeration loop\<close>

lemma fetch_sitemap_world: "snd (fetch_sitemap L url w) = snd (fetch_url url w)"
  by (simp add: fetch_sitemap_def split: prod.splits sum.splits option.splits)

lemma crawlable_of_filter:
  "crawlable_of L rp urls = Inr cs \<Longrightarrow> cs = filter (\<lambda>u. can_fetch L rp ''*'' u = Inr True) urls"
  by (induction urls arbitrary: cs) (auto split: sum.splits if_splits)

lemma crawlable_of_length: "crawlable_of L rp urls = Inr cs \<Longrightarrow> length cs \<le> length urls"
  by (drule crawlable_of_filter) simp

lemma bucket_body_eq:
  "bucket_body L rp (y, m, k) (mp, tc, ta) w =
     (let url = sitemap_url y m k;
          urls = fst (fetch_sitemap L url w);
          w' = snd (fetch_url url w)
      in (case crawlable_of L rp urls of
            Inl e \<Rightarrow> (Inl e, w')
          | Inr cs \<Rightarrow> (Inr (AList.update url cs mp, tc + length urls, ta + length cs), w')))"
proof -
  obtain urls w' where f: "fetch_sitemap L (sitemap_url y m k) w = (urls, w')"
    by (cases "fetch_sitemap L (sitemap_url y m k) w")
  with fetch_sitemap_world [of L "sitemap_url y m k" w]
  have "snd (fetch_url (sitemap_url y m k) w) = w'" by simp
  with f show ?thesis by (simp add: bucket_body_def Let_def split: sum.splits)
qed

lemma update_fresh: "k \<notin> fst ` set al \<Longrightarrow> AList.update k v al = al @ [(k, v)]"
  by (induction al) auto

lemma bucket_url_inj: "inj bucket_url"
  by (rule injI) (auto simp: bucket_url_def dest: sitemap_url_inj)

lemma for_buckets_entries:
  "for_buckets L rp bs (mp, tc, ta) w = (Inr (mp', tc', ta'), w') \<Longrightarrow>
     map fst (sitemap_entries L rp bs w) = map bucket_url bs
     \<and> mp' = foldl (\<lambda>acc (url, urls, cs). AList.update url cs acc) mp (sitemap_entries L rp bs w)
     \<and> tc' = tc + (\<Sum>(url, urls, cs) \<leftarrow> sitemap_entries L rp bs w. length urls)
     \<and> ta' = ta + (\<Sum>(url, urls, cs) \<leftarrow> sitemap_entries L rp bs w. length cs)"
proof (induction bs arbitrary: mp tc ta w)
  case Nil
  then show ?case by simp
next
  case (Cons b bs)
  obtain y m k where b: "b = (y, m, k)" by (cases b)
  define url where "url = sitemap_url y m k"
  define urls where "urls = fst (fetch_sitemap L url w)"
  define w1 where "w1 = snd (fetch_url url w)"
  from Cons.prems obtain cs where cs: "crawlable_of L rp urls = Inr cs"
    and rest: "for_buckets L rp bs (AList.update url cs mp, tc + length urls, ta + length cs) w1
                 = (Inr (mp', tc', ta'), w')"
    by (auto simp: b bucket_body_eq Let_def url_def urls_def w1_def split: sum.splits)
  have fs: "fetch_sitemap L url w = (urls, w1)"
    using fetch_sitemap_world [of L url w] by (simp add: urls_def w1_def prod_eq_iff)
  have es: "sitemap_entries L rp ((y, m, k) # bs) w = (url, urls, cs) # sitemap_entries L rp bs w1"
    using fs cs by (simp add: url_def [symmetric])
  from Cons.IH [OF rest] show ?case
    unfolding b es by (simp add: bucket_url_def url_def)
qed

lemma foldl_update_fresh:
  "distinct (map fst es) \<Longrightarrow> fst ` set mp \<inter> fst ` set es = {} \<Longrightarrow>
     foldl (\<lambda>acc (url, urls, cs). AList.update url cs acc) mp es
       = mp @ map (\<lambda>(url, urls, cs). (url, cs)) es"
proof (induction es arbitrary: mp)
  case Nil
  then show ?case by simp
next
  case (Cons e es)
  obtain url urls cs where e: "e = (url, urls, cs)" by (cases e)
  from Cons.prems have fresh: "url \<notin> fst ` set mp" by (auto simp: e)
  from Cons.prems have "distinct (map fst es)"
    and "fst ` set (mp @ [(url, cs)]) \<inter> fst ` set es = {}"
    by (auto simp: e)
  from Cons.IH [OF this] show ?case
    by (simp add: e update_fresh [OF fresh])
qed

lemma sitemap_entries_filter:
  "(url, urls, cs) \<in> set (sitemap_entries L rp bs w) \<Longrightarrow>
     cs = filter (\<lambda>u. can_fetch L rp ''*'' u = Inr True) urls"
proof (induction bs arbitrary: w)
  case Nil
  then show ?case by simp
next
  case (Cons b bs)
  obtain y m k where b: "b = (y, m, k)" by (cases b)
  from Cons.prems Cons.IH show ?case
    by (auto simp: b Let_def crawlable_of_filter split: prod.splits sum.splits)
qed

lemma sum_list_le:
  "(\<And>x. x \<in> set xs \<Longrightarrow> f x \<le> (g x :: nat)) \<Longrightarrow> sum_list (map f xs) \<le> sum_list (map g xs)"
  by (induction xs) (auto intro: add_mono)

lemma bucket_body_requests:
  "length (requests w) < length (requests (snd (bucket_body L rp b acc w)))"
proof -
  obtain y m k where b: "b = (y, m, k)" by (cases b)
  obtain mp tc ta where acc: "acc = (mp, tc, ta)" by (cases acc)
  show ?thesis
    using fetch_url_requests [of w "sitemap_url y m k"]
    by (simp add: b acc bucket_body_eq Let_def split: sum.splits)
qed

lemma for_buckets_requests:
  "length (requests w) \<le> length (requests (snd (for_buckets L rp bs acc w)))"
proof (induction bs arbitrary: acc w)
  case Nil
  then show ?case by simp
next
  case (Cons b bs)
  obtain r w1 where bb: "bucket_body L rp b acc w = (r, w1)"
    by (cases "bucket_body L rp b acc w")
  with bucket_body_requests [of w L rp b acc] have lt: "length (requests w) < length (requests w1)"
    by simp
  show ?case
  proof (cases r)
    case (Inl e)
    with bb lt show ?thesis by simp
  next
    case (Inr acc1)
    with bb lt Cons.IH [where acc = acc1 and w = w1] show ?thesis by simp
  qed
qed

lemma for_buckets_requests_strict:
  "bs \<noteq> [] \<Longrightarrow> length (requests w) < length (requests (snd (for_buckets L rp bs acc w)))"
proof (cases bs)
  case Nil
  then show "bs \<noteq> [] \<Longrightarrow> ?thesis" by simp
next
  case (Cons b bs')
  obtain r w1 where bb: "bucket_body L rp b acc w = (r, w1)"
    by (cases "bucket_body L rp b acc w")
  with bucket_body_requests [of w L rp b acc] have lt: "length (requests w) < length (requests w1)"
    by simp
  show ?thesis
  proof (cases r)
    case (Inl e)
    with bb lt Cons show ?thesis by simp
  next
    case (Inr acc1)
    with bb lt Cons for_buckets_requests [of w1 L rp bs' acc1] show ?thesis by simp
  qed
qed

lemma for_buckets_nonempty:
  "bs \<noteq> [] \<Longrightarrow> fst (for_buckets L rp bs (mp, tc, ta) w) = Inr (mp', tc', ta') \<Longrightarrow> mp' \<noteq> []"
proof (induction bs arbitrary: mp tc ta w)
  case Nil
  then show ?case by simp
next
  case (Cons b bs)
  obtain y m k where b: "b = (y, m, k)" by (cases b)
  define url where "url = sitemap_url y m k"
  define urls where "urls = fst (fetch_sitemap L url w)"
  define w1 where "w1 = snd (fetch_url url w)"
  from Cons.prems(2) obtain cs where
    rest: "fst (for_buckets L rp bs (AList.update url cs mp, tc + length urls, ta + length cs) w1)
             = Inr (mp', tc', ta')"
    by (auto simp: b bucket_body_eq Let_def url_def urls_def w1_def split: sum.splits)
  show ?case
  proof (cases "bs = []")
    case True
    with rest show ?thesis by auto
  next
    case False
    from Cons.IH [OF False rest] show ?thesis .
  qed
qed

lemma week_level_buckets: "buckets 2024 1 3 2024 1 2 = [(2024, 1, 1), (2024, 1, 2)]"
  by code_simp

lemma empty_range_buckets:
  "end_year < start_year \<or> (end_year = start_year \<and> end_month < start_month) \<Longrightarrow>
     buckets start_year start_month start_week end_year end_month end_week = []"
  by (auto simp: buckets_def months_of_def)

lemma get_content_urls_empty_range:
  "end_year < start_year \<or> (end_year = start_year \<and> end_month < start_month) \<Longrightarrow>
     get_content_urls L rp start_year start_month start_week end_year end_month end_week w
       = (Inr ([], 0, 0), w)"
  by (simp add: get_content_urls_def empty_range_buckets)

section \<open>Claims about the enumeration\<close>

text \<open>
  C1, at the range from (2024, 1, 3) to (2024, 3, 2): the claim has the enumeration
  start at the start bucket, but \<open>get_content_urls\<close> never reads \<open>start_week\<close>; the
  first buckets it reaches are weeks 1 and 2 of January, which lie before the start
  bucket (2024, 1, 3).
\<close>

theorem get_content_urls_start_week_unread:
  "buckets 2024 1 3 2024 3 2 =
     [(2024, 1, 1), (2024, 1, 2), (2024, 1, 3), (2024, 1, 4),
      (2024, 2, 1), (2024, 2, 2), (2024, 2, 3), (2024, 2, 4),
      (2024, 3, 1), (2024, 3, 2)]
   \<and> earlier (hd (buckets 2024 1 3 2024 3 2)) (2024, 1, 3)"
  by code_simp

text \<open>
  C2, at the range from (2024, 1, 3) to (2024, 1, 2), whose end bucket lies before its
  start bucket at the week level: the claim has the result empty, but whatever the
  network and the robots policy, \<open>get_content_urls\<close> sends requests and does not
  return the empty result (it reaches the buckets of weeks 1 and 2).
\<close>

theorem get_content_urls_week_level_range:
  "fst (get_content_urls L rp 2024 1 3 2024 1 2 w) \<noteq> Inr ([], 0, 0)
   \<and> length (requests w) < length (requests (snd (get_content_urls L rp 2024 1 3 2024 1 2 w)))"
proof
  show "fst (get_content_urls L rp 2024 1 3 2024 1 2 w) \<noteq> Inr ([], 0, 0)"
    using for_buckets_nonempty [of "[(2024, 1, 1), (2024, 1, 2)]" L rp "[]" 0 0 w "[]" 0 0]
    by (auto simp: get_content_urls_def week_level_buckets)
  show "length (requests w) < length (requests (snd (get_content_urls L rp 2024 1 3 2024 1 2 w)))"
    unfolding get_content_urls_def week_level_buckets
    by (rule for_buckets_requests_strict) simp
qed

text \<open>
  C10: two calls of \<open>get_content_urls\<close> that differ only in \<open>start_week\<close> compute the
  same bucket mapping, the same totals and the same requests.
\<close>

theorem get_content_urls_ignores_start_week:
  "get_content_urls L rp start_year start_month start_week end_year end_month end_week w
     = get_content_urls L rp start_year start_month start_week' end_year end_month end_week w"
  by (simp add: get_content_urls_def buckets_def)

text \<open>
  C4, at the totals 3 and 1, which \<open>get_content_urls\<close> returns for a sitemap of three
  pages of which one is allowed: the claim has the score equal to \<open>100 * 1 / 3\<close>, but
  line 162 computes it in binary64 arithmetic, rounding the quotient and then the
  product. The score is 33.33333333333333, that is \<open>2345624805922133 / 2^46\<close>, which
  is neither \<open>100 / 3\<close> nor the \<open>float\<close> nearest to it; at the totals 25 and 7 the
  score is 28.000000000000004, not 28.
\<close>

theorem crawl_score_rounding_counterexample:
  "fst (get_content_urls example_lib (rules_for_all [\<lparr>path = ''/admin/'', allowance = False\<rparr>])
          2024 1 1 2024 1 1 (quiet small_site))
     = Inr ([(sitemap_url 2024 1 1, [''https://www.bonappetit.com/recipe/a''])], 3, 1)
   \<and> crawl_score 3 1 = 2345624805922133 / 2 ^ 46
   \<and> crawl_score 3 1 \<noteq> 100 * 1 / 3
   \<and> crawl_score 3 1 \<noteq> binary64 (100 * 1 / 3)
   \<and> crawl_score 25 7 = 28 + 1 / 2 ^ 48"
proof -
  have "fst (get_content_urls example_lib (rules_for_all [\<lparr>path = ''/admin/'', allowance = False\<rparr>])
               2024 1 1 2024 1 1 (quiet small_site))
     = Inr ([(sitemap_url 2024 1 1, [''https://www.bonappetit.com/recipe/a''])], 3, 1)"
    by code_simp
  moreover have "crawl_score 3 1 = 2345624805922133 / 2 ^ 46"
    by code_simp
  moreover have "crawl_score 3 1 \<noteq> 100 * 1 / 3"
    by code_simp
  moreover have "crawl_score 3 1 \<noteq> binary64 (100 * 1 / 3)"
    by code_simp
  moreover have "crawl_score 25 7 = 28 + 1 / 2 ^ 48"
    by code_simp
  ultimately show ?thesis by blast
qed

text \<open>
  C4, as amended: when \<open>get_content_urls\<close> returns, the mapping holds one entry per
  bucket, in order, with the allowed URLs of that bucket; \<open>total_checked\<close> is the sum
  of the lengths of the discovered lists and \<open>total_crawlable\<close> the sum of the lengths
  of the allowed lists, over these entries. The score is 0 when nothing was checked,
  and otherwise the quotient \<open>total_crawlable / total_checked\<close> rounded to a \<open>float\<close>,
  times 100, rounded again: it differs from \<open>100 * total_crawlable / total_checked\<close>
  by at most the fraction \<open>2^-51\<close> of that value (for up to \<open>2^1022\<close> checked URLs),
  and it lies between 0 and 100.
\<close>

theorem crawl_totals:
  assumes "fst (get_content_urls L rp sy sm sw ey em ew w)
             = Inr (sitemap_map, total_checked, total_crawlable)"
  shows "(let es = sitemap_entries L rp (buckets sy sm sw ey em ew) w in
            map fst es = map bucket_url (buckets sy sm sw ey em ew)
          \<and> (\<forall>(url, urls, crawlable) \<in> set es.
                crawlable = filter (\<lambda>u. can_fetch L rp ''*'' u = Inr True) urls)
          \<and> sitemap_map = map (\<lambda>(url, urls, crawlable). (url, crawlable)) es
          \<and> total_checked = (\<Sum>(url, urls, crawlable) \<leftarrow> es. length urls)
          \<and> total_crawlable = (\<Sum>(url, urls, crawlable) \<leftarrow> es. length crawlable))
       \<and> total_crawlable = (\<Sum>(url, crawlable) \<leftarrow> sitemap_map. length crawlable)
       \<and> total_crawlable \<le> total_checked
       \<and> crawl_score total_checked total_crawlable
            = (if total_checked = 0 then 0
               else binary64 (binary64 (of_nat total_crawlable / of_nat total_checked) * 100))
       \<and> (total_checked \<noteq> 0 \<and> total_checked \<le> 2 ^ 1022 \<longrightarrow>
            \<bar>crawl_score total_checked total_crawlable
               - 100 * of_nat total_crawlable / of_nat total_checked\<bar>
              \<le> 100 * of_nat total_crawlable / of_nat total_checked / 2 ^ 51)
       \<and> 0 \<le> crawl_score total_checked total_crawlable
       \<and> crawl_score total_checked total_crawlable \<le> 100"
proof -
  define bs where "bs = buckets sy sm sw ey em ew"
  define es where "es = sitemap_entries L rp bs w"
  from assms obtain w' where
    run: "for_buckets L rp bs ([], 0, 0) w = (Inr (sitemap_map, total_checked, total_crawlable), w')"
    by (cases "get_content_urls L rp sy sm sw ey em ew w")
       (simp add: get_content_urls_def bs_def)
  from for_buckets_entries [OF run]
  have keys: "map fst es = map bucket_url bs"
    and mp: "sitemap_map = foldl (\<lambda>acc (url, urls, cs). AList.update url cs acc) [] es"
    and tc: "total_checked = (\<Sum>(url, urls, cs) \<leftarrow> es. length urls)"
    and ta: "total_crawlable = (\<Sum>(url, urls, cs) \<leftarrow> es. length cs)"
    by (simp_all add: es_def)
  have "distinct (map bucket_url bs)"
    unfolding bs_def by (simp add: distinct_map buckets_distinct inj_on_subset [OF bucket_url_inj])
  with keys have "distinct (map fst es)" by simp
  then have mp': "sitemap_map = map (\<lambda>(url, urls, cs). (url, cs)) es"
    unfolding mp by (subst foldl_update_fresh) simp_all
  have filt: "\<forall>(url, urls, cs) \<in> set es. cs = filter (\<lambda>u. can_fetch L rp ''*'' u = Inr True) urls"
    using sitemap_entries_filter [of _ _ _ L rp bs w] by (auto simp: es_def)
  have ta': "total_crawlable = (\<Sum>(url, cs) \<leftarrow> sitemap_map. length cs)"
    unfolding ta mp' by (simp add: comp_def case_prod_unfold)
  have le: "total_crawlable \<le> total_checked"
    unfolding ta tc using filt by (intro sum_list_le) auto
  then have range: "0 \<le> crawl_score total_checked total_crawlable
      \<and> crawl_score total_checked total_crawlable \<le> 100"
    by (rule crawl_score_range)
  have score: "crawl_score total_checked total_crawlable
      = (if total_checked = 0 then 0
         else binary64 (binary64 (of_nat total_crawlable / of_nat total_checked) * 100))"
    by (simp add: crawl_score_def)
  have error: "total_checked \<noteq> 0 \<and> total_checked \<le> 2 ^ 1022 \<longrightarrow>
      \<bar>crawl_score total_checked total_crawlable
         - 100 * of_nat total_crawlable / of_nat total_checked\<bar>
        \<le> 100 * of_nat total_crawlable / of_nat total_checked / 2 ^ 51"
    using crawl_score_error [of total_checked total_crawlable] by blast
  from keys filt mp' tc ta ta' le range score error show ?thesis
    unfolding Let_def bs_def [symmetric] es_def [symmetric] by blast
qed

theorem crawl_totals_witness:
  "fst (get_content_urls example_lib (rules_for_all [\<lparr>path = ''/admin/'', allowance = False\<rparr>])
          2024 1 1 2024 1 1 (quiet january_sitemap))
     = Inr ([(sitemap_url 2024 1 1,
              [''https://www.bonappetit.com/recipe/a'', ''https://www.bonappetit.com/recipe/c'',
               ''https://www.bonappetit.com/story/e''])], 5, 3)
   \<and> crawl_score 5 3 = 60
   \<and> \<bar>crawl_score 5 3 - 100 * 3 / 5\<bar> \<le> 100 * 3 / 5 / 2 ^ 51
   \<and> crawl_score 5 3 \<le> 100"
proof -
  have run: "fst (get_content_urls example_lib
                (rules_for_all [\<lparr>path = ''/admin/'', allowance = False\<rparr>])
                2024 1 1 2024 1 1 (quiet january_sitemap))
     = Inr ([(sitemap_url 2024 1 1,
              [''https://www.bonappetit.com/recipe/a'', ''https://www.bonappetit.com/recipe/c'',
               ''https://www.bonappetit.com/story/e''])], 5, 3)"
    by code_simp
  have small: "(5 :: nat) \<noteq> 0 \<and> (5 :: nat) \<le> 2 ^ 1022" by simp
  from crawl_totals [OF run] have
    "((5 :: nat) \<noteq> 0 \<and> (5 :: nat) \<le> 2 ^ 1022 \<longrightarrow>
        \<bar>crawl_score 5 3 - 100 * of_nat 3 / of_nat 5\<bar> \<le> 100 * of_nat 3 / of_nat 5 / 2 ^ 51)
     \<and> crawl_score 5 3 \<le> 100"
    by blast
  with small have "\<bar>crawl_score 5 3 - 100 * 3 / 5\<bar> \<le> 100 * 3 / 5 / 2 ^ 51
     \<and> crawl_score 5 3 \<le> 100"
    by simp
  moreover have "crawl_score 5 3 = 60" by code_simp
  ultimately show ?thesis using run by blast
qed

section \<open>Claims about the fetcher\<close>

text \<open>
  C3, at the URL \<open>/recipe/pasta\<close>, which has no scheme: the claim has \<open>fetch_url\<close>
  retry only after a transport-level failure or a failure status, but the decorator
  retries every \<open>RequestException\<close>. The attempt for this URL fails with one that is
  neither (\<open>requests\<close> sends nothing), and \<open>fetch_url\<close> makes three attempts, with
  two waits of 2 seconds, before the error surfaces.
\<close>

theorem fetch_url_refused_counterexample:
  "net (quiet http_only) 0 ''/recipe/pasta'' = Refused
   \<and> attempt_result Refused = Inl InvalidURL
   \<and> fst (fetch_url ''/recipe/pasta'' (quiet http_only)) = Inl RetryError
   \<and> requests (snd (fetch_url ''/recipe/pasta'' (quiet http_only)))
       = [''/recipe/pasta'', ''/recipe/pasta'', ''/recipe/pasta'']
   \<and> sleeps (snd (fetch_url ''/recipe/pasta'' (quiet http_only))) = [2, 2]"
  using fetch_url_cases [of "''/recipe/pasta''" "quiet http_only"]
  by (simp add: quiet_def http_only_def retried_def attempt_result_def
        wait_exponential_def Let_def)

text \<open>
  C3, as amended: \<open>fetch_url\<close> makes one, two or three attempts, and a further
  attempt only after an attempt that failed with a \<open>RequestException\<close>: no answer, a
  status from 400 to 599, or a request that \<open>requests\<close> gave up for a reason of its
  own; any other failure surfaces at once, after one attempt and no wait, and an answer
  with any other status is returned as the response. It sleeps \<open>wait_exponential 2\<close>
  seconds before attempt 2 and \<open>wait_exponential 3\<close> seconds before attempt 3, where
  the wait before attempt \<open>k\<close> is \<open>min (max 2 (2 ^ (k - 2))) 10\<close>, between 2 and 10 and
  non-decreasing in \<open>k\<close>. After two failures the third reply decides: its response is
  returned, or, when it fails too, the error surfaces with no fourth attempt.
\<close>

theorem fetch_url_retry_policy:
  "fetch_url url w =
     (let n = length (requests w);
          r1 = net w n url; r2 = net w (n + 1) url; r3 = net w (n + 2) url
      in if \<not> retried r1 then
           (attempt_result r1, w\<lparr>requests := requests w @ [url]\<rparr>)
         else if \<not> retried r2 then
           (attempt_result r2,
            w\<lparr>requests := requests w @ [url, url], sleeps := sleeps w @ [wait_exponential 2]\<rparr>)
         else
           (if retried r3 then Inl RetryError else attempt_result r3,
            w\<lparr>requests := requests w @ [url, url, url],
              sleeps := sleeps w @ [wait_exponential 2, wait_exponential 3]\<rparr>))
   \<and> 1 \<le> length (requests (snd (fetch_url url w))) - length (requests w)
   \<and> length (requests (snd (fetch_url url w))) - length (requests w) \<le> 3
   \<and> (\<forall>r. retried r =
          (case r of
             Reply status body \<Rightarrow> 400 \<le> status \<and> status < 600
           | Unreachable \<Rightarrow> True
           | Refused \<Rightarrow> True
           | Crash \<Rightarrow> False))
   \<and> (net w (length (requests w)) url = Crash \<longrightarrow>
        fetch_url url w = (Inl OtherException, w\<lparr>requests := requests w @ [url]\<rparr>))
   \<and> (\<forall>status body.
        net w (length (requests w)) url = Reply status body
          \<and> \<not> (400 \<le> status \<and> status < 600) \<longrightarrow>
        fetch_url url w = (Inr body, w\<lparr>requests := requests w @ [url]\<rparr>))
   \<and> (\<forall>k. wait_exponential k = min (max 2 (2 ^ (k - 2))) 10)
   \<and> (\<forall>k. 2 \<le> wait_exponential k \<and> wait_exponential k \<le> 10)
   \<and> mono wait_exponential"
proof -
  have filter: "retried r =
      (case r of
         Reply status body \<Rightarrow> 400 \<le> status \<and> status < 600
       | Unreachable \<Rightarrow> True
       | Refused \<Rightarrow> True
       | Crash \<Rightarrow> False)" for r
    by (simp add: retried_def attempt_result_def split: reply.splits)
  have crash: "net w (length (requests w)) url = Crash \<longrightarrow>
      fetch_url url w = (Inl OtherException, w\<lparr>requests := requests w @ [url]\<rparr>)"
    using fetch_url_cases [of url w]
    by (simp add: Let_def retried_def attempt_result_def)
  have success: "net w (length (requests w)) url = Reply status body
        \<and> \<not> (400 \<le> status \<and> status < 600) \<longrightarrow>
      fetch_url url w = (Inr body, w\<lparr>requests := requests w @ [url]\<rparr>)" for status body
    using fetch_url_cases [of url w]
    by (auto simp: Let_def retried_def attempt_result_def)
  have wait: "wait_exponential k = min (max 2 (2 ^ (k - 2))) 10" for k
    by (simp add: wait_exponential_def)
  have attempts: "1 \<le> length (requests (snd (fetch_url url w))) - length (requests w)
      \<and> length (requests (snd (fetch_url url w))) - length (requests w) \<le> 3"
    by (simp add: fetch_url_cases Let_def)
  from fetch_url_cases [of url w] attempts filter crash success wait
    wait_exponential_bounds wait_exponential_mono
  show ?thesis by blast
qed

theorem fetch_url_retry_policy_witness:
  "fst (fetch_url ''https://www.bonappetit.com/feed/rss'' (quiet flaky)) = Inr ''ok''
   \<and> requests (snd (fetch_url ''https://www.bonappetit.com/feed/rss'' (quiet flaky)))
       = [''https://www.bonappetit.com/feed/rss'', ''https://www.bonappetit.com/feed/rss'',
          ''https://www.bonappetit.com/feed/rss'']
   \<and> sleeps (snd (fetch_url ''https://www.bonappetit.com/feed/rss'' (quiet flaky))) = [2, 2]
   \<and> fst (fetch_url ''https://www.bonappetit.com/feed/rss'' (quiet offline)) = Inl RetryError
   \<and> length (requests (snd (fetch_url ''https://www.bonappetit.com/feed/rss'' (quiet offline)))) = 3
   \<and> fst (fetch_url ''https://www.bonappetit.com/feed/rss'' (quiet crashing)) = Inl OtherException
   \<and> requests (snd (fetch_url ''https://www.bonappetit.com/feed/rss'' (quiet crashing)))
       = [''https://www.bonappetit.com/feed/rss'']
   \<and> sleeps (snd (fetch_url ''https://www.bonappetit.com/feed/rss'' (quiet crashing))) = []
   \<and> fst (fetch_url ''https://www.bonappetit.com/feed/rss'' (quiet http_only)) = Inr ''ok''
   \<and> requests (snd (fetch_url ''https://www.bonappetit.com/feed/rss'' (quiet http_only)))
       = [''https://www.bonappetit.com/feed/rss'']"
proof -
  define u where "u = ''https://www.bonappetit.com/feed/rss''"
  have "net (quiet crashing) (length (requests (quiet crashing))) u = Crash"
    by (simp add: quiet_def crashing_def)
  with fetch_url_retry_policy [of u "quiet crashing"]
  have crash: "fetch_url u (quiet crashing)
      = (Inl OtherException, (quiet crashing)\<lparr>requests := requests (quiet crashing) @ [u]\<rparr>)"
    by blast
  have "net (quiet http_only) (length (requests (quiet http_only))) u = Reply 200 ''ok''
      \<and> \<not> (400 \<le> (200 :: nat) \<and> (200 :: nat) < 600)"
    by (simp add: quiet_def http_only_def u_def)
  with fetch_url_retry_policy [of u "quiet http_only"]
  have success: "fetch_url u (quiet http_only)
      = (Inr ''ok'', (quiet http_only)\<lparr>requests := requests (quiet http_only) @ [u]\<rparr>)"
    by blast
  from fetch_url_retry_policy [of u "quiet flaky"]
  have flaky: "fst (fetch_url u (quiet flaky)) = Inr ''ok''
      \<and> requests (snd (fetch_url u (quiet flaky))) = [u, u, u]
      \<and> sleeps (snd (fetch_url u (quiet flaky))) = [2, 2]"
    by (simp add: quiet_def flaky_def retried_def attempt_result_def
          wait_exponential_def Let_def)
  from fetch_url_retry_policy [of u "quiet offline"]
  have offline: "fst (fetch_url u (quiet offline)) = Inl RetryError
      \<and> length (requests (snd (fetch_url u (quiet offline)))) = 3"
    by (simp add: quiet_def offline_def retried_def attempt_result_def
          wait_exponential_def Let_def)
  from crash success flaky offline show ?thesis
    unfolding u_def [symmetric] by (simp add: quiet_def)
qed

section \<open>The cache wrapper\<close>

lemma cached_hit:
  "cache_data (cache_key sy sm sw ey em ew) = Some r \<Longrightarrow>
     get_content_urls_cached L rp sy sm sw ey em ew (cache_data, w) = (Inr r, cache_data, w)"
  by (simp add: get_content_urls_cached_def)

lemma cached_miss:
  "cache_data (cache_key sy sm sw ey em ew) = None \<Longrightarrow>
     fst (get_content_urls L rp sy sm sw ey em ew w) = Inr r \<Longrightarrow>
     get_content_urls_cached L rp sy sm sw ey em ew (cache_data, w)
       = (Inr r, cache_data(cache_key sy sm sw ey em ew \<mapsto> r),
          snd (get_content_urls L rp sy sm sw ey em ew w))"
  by (cases "get_content_urls L rp sy sm sw ey em ew w")
     (simp add: get_content_urls_cached_def)

lemma cached_raise:
  "cache_data (cache_key sy sm sw ey em ew) = None \<Longrightarrow>
     fst (get_content_urls L rp sy sm sw ey em ew w) = Inl e \<Longrightarrow>
     get_content_urls_cached L rp sy sm sw ey em ew (cache_data, w)
       = (Inl e, cache_data, snd (get_content_urls L rp sy sm sw ey em ew w))"
  by (cases "get_content_urls L rp sy sm sw ey em ew w")
     (simp add: get_content_urls_cached_def)

lemma cache_key_inj:
  "cache_key a b c d e f = cache_key a' b' c' d' e' f'
     \<longleftrightarrow> a = a' \<and> b = b' \<and> c = c' \<and> d = d' \<and> e = e' \<and> f = f'"
  by (simp add: cache_key_def)

text \<open>
  The wrapper alone memoizes. The cache is keyed by the six arguments as they are, so
  two keys are equal only when all six arguments are. A call that finds no entry runs
  \<open>get_content_urls\<close> once and, when that returns a result, stores it; a later call of
  the same wrapper with the same six arguments returns that result and leaves the
  world as it is, and no other key is touched.
\<close>

lemma wrapper_memoizes:
  assumes miss: "cache_data (cache_key sy sm sw ey em ew) = None"
      and run: "fst (get_content_urls L rp sy sm sw ey em ew w) = Inr r"
  shows "(let k = cache_key sy sm sw ey em ew; cache1 = cache_data(k \<mapsto> r) in
            get_content_urls_cached L rp sy sm sw ey em ew (cache_data, w)
              = (Inr r, cache1, snd (get_content_urls L rp sy sm sw ey em ew w))
          \<and> (\<forall>L' rp' w'.
                get_content_urls_cached L' rp' sy sm sw ey em ew (cache1, w') = (Inr r, cache1, w'))
          \<and> (\<forall>k'. k' \<noteq> k \<longrightarrow> cache1 k' = cache_data k'))
       \<and> (\<forall>sy' sm' sw' ey' em' ew'.
             (cache_key sy' sm' sw' ey' em' ew' = cache_key sy sm sw ey em ew)
               = (sy' = sy \<and> sm' = sm \<and> sw' = sw \<and> ey' = ey \<and> em' = em \<and> ew' = ew))"
proof -
  define cache1 where "cache1 = cache_data(cache_key sy sm sw ey em ew \<mapsto> r)"
  have first: "get_content_urls_cached L rp sy sm sw ey em ew (cache_data, w)
      = (Inr r, cache1, snd (get_content_urls L rp sy sm sw ey em ew w))"
    unfolding cache1_def using miss run by (rule cached_miss)
  have "cache1 (cache_key sy sm sw ey em ew) = Some r" by (simp add: cache1_def)
  then have second: "get_content_urls_cached L' rp' sy sm sw ey em ew (cache1, w') = (Inr r, cache1, w')"
    for L' rp' w' by (rule cached_hit)
  have others: "k' \<noteq> cache_key sy sm sw ey em ew \<longrightarrow> cache1 k' = cache_data k'" for k'
    by (simp add: cache1_def)
  from first second others show ?thesis
    unfolding Let_def cache1_def [symmetric] by (simp add: cache_key_inj)
qed

lemma script_run_uncached:
  "script_run L True sy sm sw ey em ew w =
     (case startup L w of
        (Inl e, w') \<Rightarrow> (Inl e, w')
      | (Inr (rp, summary), w') \<Rightarrow>
          (case get_content_urls L rp sy sm sw ey em ew w' of
             (Inl e, w'') \<Rightarrow> (Inl e, w'')
           | (Inr r, w'') \<Rightarrow> (Inr (Some r), w'')))"
  by (simp add: script_run_def get_content_urls_cached_def cache_def
        split: prod.splits sum.splits)

text \<open>
  C5, at two executions of the script with \<open>Run Crawl\<close> pressed and the same six
  sidebar values: the claim has the second request answered from the cache with no
  re-fetch, but every execution applies the decorator anew, so the wrapper starts from
  an empty dictionary each time and, once the start-up has succeeded, runs
  \<open>get_content_urls\<close> itself. On the example site two executions for week 1 of
  January 2024 return the same result and request the sitemap twice (the second
  starts in the world the first call left; the pages and feeds an execution requests
  after the call are left out, and this site answers the same at all times).
\<close>

theorem script_run_enumerates_again:
  "script_run L True sy sm sw ey em ew w =
     (case startup L w of
        (Inl e, w') \<Rightarrow> (Inl e, w')
      | (Inr (rp, summary), w') \<Rightarrow>
          (case get_content_urls L rp sy sm sw ey em ew w' of
             (Inl e, w'') \<Rightarrow> (Inl e, w'')
           | (Inr r, w'') \<Rightarrow> (Inr (Some r), w'')))
   \<and> fst (script_run example_lib True 2024 1 1 2024 1 1 (quiet small_site))
       = Inr (Some ([(sitemap_url 2024 1 1, [''https://www.bonappetit.com/recipe/a''])], 3, 1))
   \<and> requests (snd (script_run example_lib True 2024 1 1 2024 1 1 (quiet small_site)))
       = [robots_url, robots_url, sitemap_url 2024 1 1]
   \<and> fst (script_run example_lib True 2024 1 1 2024 1 1
             (snd (script_run example_lib True 2024 1 1 2024 1 1 (quiet small_site))))
       = Inr (Some ([(sitemap_url 2024 1 1, [''https://www.bonappetit.com/recipe/a''])], 3, 1))
   \<and> requests (snd (script_run example_lib True 2024 1 1 2024 1 1
                  (snd (script_run example_lib True 2024 1 1 2024 1 1 (quiet small_site)))))
       = [robots_url, robots_url, sitemap_url 2024 1 1,
          robots_url, robots_url, sitemap_url 2024 1 1]"
proof -
  have "fst (script_run example_lib True 2024 1 1 2024 1 1 (quiet small_site))
       = Inr (Some ([(sitemap_url 2024 1 1, [''https://www.bonappetit.com/recipe/a''])], 3, 1))"
    by code_simp
  moreover have "requests (snd (script_run example_lib True 2024 1 1 2024 1 1 (quiet small_site)))
       = [robots_url, robots_url, sitemap_url 2024 1 1]"
    by code_simp
  moreover have "fst (script_run example_lib True 2024 1 1 2024 1 1
             (snd (script_run example_lib True 2024 1 1 2024 1 1 (quiet small_site))))
       = Inr (Some ([(sitemap_url 2024 1 1, [''https://www.bonappetit.com/recipe/a''])], 3, 1))"
    by code_simp
  moreover have "requests (snd (script_run example_lib True 2024 1 1 2024 1 1
                  (snd (script_run example_lib True 2024 1 1 2024 1 1 (quiet small_site)))))
       = [robots_url, robots_url, sitemap_url 2024 1 1,
          robots_url, robots_url, sitemap_url 2024 1 1]"
    by code_simp
  ultimately show ?thesis
    using script_run_uncached [of L sy sm sw ey em ew w] by blast
qed

section \<open>Failed fetches and the classification loop\<close>

lemma extract_body_acc:
  "extract_body B u (recipes, js_heavy) w =
     (case extract_body B u ([], []) w of
        ((r1, j1), w1) \<Rightarrow> ((recipes @ r1, js_heavy @ j1), w1))"
  by (simp add: extract_body_def split: prod.splits sum.splits option.splits)

lemma extract_loop_acc:
  "extract_loop B us (recipes, js_heavy) w =
     (case extract_loop B us ([], []) w of
        ((rs, js), w') \<Rightarrow> ((recipes @ rs, js_heavy @ js), w'))"
proof (induction us arbitrary: recipes js_heavy w)
  case Nil
  then show ?case by simp
next
  case (Cons u us)
  obtain r1 j1 w1 where b: "extract_body B u ([], []) w = ((r1, j1), w1)"
    by (metis surj_pair)
  then have b': "extract_body B u (recipes, js_heavy) w = ((recipes @ r1, js_heavy @ j1), w1)"
    by (subst extract_body_acc) simp
  obtain rs js w2 where l: "extract_loop B us ([], []) w1 = ((rs, js), w2)"
    by (metis surj_pair)
  show ?case
    by (simp add: b b' Cons.IH [of "recipes @ r1" "js_heavy @ j1" w1] Cons.IH [of r1 j1 w1] l)
qed

lemma extract_all_recipes_Cons:
  "extract_all_recipes B (u # us) w =
      (case extract_all_recipes B [u] w of
         ((r1, j1), w1) \<Rightarrow>
           (case extract_all_recipes B us w1 of
              ((rs, js), w2) \<Rightarrow> ((r1 @ rs, j1 @ js), w2)))"
proof -
  obtain r1 j1 w1 where b: "extract_body B u ([], []) w = ((r1, j1), w1)"
    by (metis surj_pair)
  obtain rs js w2 where l: "extract_loop B us ([], []) w1 = ((rs, js), w2)"
    by (metis surj_pair)
  show ?thesis
    by (simp add: extract_all_recipes_def b extract_loop_acc [of B us r1 j1 w1] l)
qed

lemma extract_all_recipes_single:
  "extract_all_recipes B [u] w =
      (case fetch_url u w of
         (Inl e, w1) \<Rightarrow> (([], [u]), w1)
       | (Inr content, w1) \<Rightarrow>
           (case BeautifulSoup B content of
              None \<Rightarrow> (([], [u]), w1)
            | Some soup \<Rightarrow>
                if py_in ''/recipe/'' u
                then (([\<lparr>title = (case select_title B soup of Some t \<Rightarrow> t | None \<Rightarrow> ''No title''),
                         description = (case select_desc B soup of
                                          Some d \<Rightarrow> d | None \<Rightarrow> ''No description''),
                         link = u\<rparr>], []), w1)
                else (([], []), w1)))"
  by (simp add: extract_all_recipes_def extract_body_def extract_recipe_def
           split: prod.splits sum.splits option.splits)

lemma for_buckets_failed_bucket:
  assumes "fst (fetch_url (bucket_url b) w) = Inl e
           \<or> (fst (fetch_url (bucket_url b) w) = Inr content \<and> findall_loc L content = None)"
  shows "for_buckets L rp (b # bs) (sitemap_map, tc, ta) w =
           for_buckets L rp bs (AList.update (bucket_url b) [] sitemap_map, tc, ta)
             (snd (fetch_url (bucket_url b) w))"
proof -
  obtain y m k where b: "b = (y, m, k)" by (cases b)
  from assms have "fst (fetch_sitemap L (sitemap_url y m k) w) = []"
    by (auto simp: b bucket_url_def fetch_sitemap_def split: prod.splits sum.splits option.splits)
  then show ?thesis
    by (simp add: b bucket_url_def bucket_body_eq Let_def)
qed

lemma extract_loop_failed_url:
  assumes "fst (fetch_url u w) = Inl e"
  shows "extract_loop B (u # us) (recipes, js_heavy) w =
           extract_loop B us (recipes, js_heavy @ [u]) (snd (fetch_url u w))"
  using assms by (auto simp: extract_body_def split: prod.splits sum.splits)

lemma fetch_url_all_fail:
  "\<forall>n. retried (net w n url) \<Longrightarrow> fst (fetch_url url w) = Inl RetryError"
  by (simp add: fetch_url_cases Let_def)

lemma foldl_update_empty_fresh:
  "distinct (map bucket_url bs) \<Longrightarrow> fst ` set mp \<inter> bucket_url ` set bs = {} \<Longrightarrow>
     foldl (\<lambda>acc b. AList.update (bucket_url b) [] acc) mp bs
       = mp @ map (\<lambda>b. (bucket_url b, [])) bs"
proof (induction bs arbitrary: mp)
  case Nil
  then show ?case by simp
next
  case (Cons b bs)
  from Cons.prems have fresh: "bucket_url b \<notin> fst ` set mp" by auto
  from Cons.prems have "distinct (map bucket_url bs)"
    and "fst ` set (mp @ [(bucket_url b, [])]) \<inter> bucket_url ` set bs = {}"
    by auto
  from Cons.IH [OF this] show ?case
    by (simp add: update_fresh [OF fresh])
qed

lemma for_buckets_all_fail:
  "\<forall>n url. retried (net w n url) \<Longrightarrow>
     fst (for_buckets L rp bs (mp, tc, ta) w)
       = Inr (foldl (\<lambda>acc b. AList.update (bucket_url b) [] acc) mp bs, tc, ta)"
proof (induction bs arbitrary: mp w)
  case Nil
  then show ?case by simp
next
  case (Cons b bs)
  from Cons.prems have "fst (fetch_url (bucket_url b) w) = Inl RetryError"
    by (simp add: fetch_url_all_fail)
  then have step: "for_buckets L rp (b # bs) (mp, tc, ta) w =
      for_buckets L rp bs (AList.update (bucket_url b) [] mp, tc, ta) (snd (fetch_url (bucket_url b) w))"
    by (intro for_buckets_failed_bucket) simp
  from Cons.prems have "\<forall>n url. retried (net (snd (fetch_url (bucket_url b) w)) n url)"
    by (simp add: fetch_url_net)
  from Cons.IH [OF this] show ?case
    unfolding step by simp
qed

lemma get_content_urls_all_fail:
  assumes "\<forall>n url. retried (net w n url)"
  shows "fst (get_content_urls L rp sy sm sw ey em ew w)
           = Inr (map (\<lambda>b. (bucket_url b, [])) (buckets sy sm sw ey em ew), 0, 0)"
proof -
  have "distinct (map bucket_url (buckets sy sm sw ey em ew))"
    by (simp add: distinct_map buckets_distinct inj_on_subset [OF bucket_url_inj])
  then have "foldl (\<lambda>acc b. AList.update (bucket_url b) [] acc) [] (buckets sy sm sw ey em ew)
      = map (\<lambda>b. (bucket_url b, [])) (buckets sy sm sw ey em ew)"
    by (subst foldl_update_empty_fresh) simp_all
  with for_buckets_all_fail [OF assms, of L rp "buckets sy sm sw ey em ew" "[]" 0 0]
  show ?thesis by (simp add: get_content_urls_def)
qed

lemma extract_loop_all_fail:
  "\<forall>n url. retried (net w n url) \<Longrightarrow>
     fst (extract_loop B us (recipes, js_heavy) w) = (recipes, js_heavy @ us)"
proof (induction us arbitrary: js_heavy w)
  case Nil
  then show ?case by simp
next
  case (Cons u us)
  from Cons.prems have "fst (fetch_url u w) = Inl RetryError"
    by (simp add: fetch_url_all_fail)
  then have step: "extract_loop B (u # us) (recipes, js_heavy) w =
      extract_loop B us (recipes, js_heavy @ [u]) (snd (fetch_url u w))"
    by (rule extract_loop_failed_url)
  from Cons.prems have "\<forall>n url. retried (net (snd (fetch_url u w)) n url)"
    by (simp add: fetch_url_net)
  from Cons.IH [OF this] show ?case
    unfolding step by simp
qed

lemma for_buckets_keeps:
  "fst (for_buckets L rp bs (mp, tc, ta) w) = Inr (mp', tc', ta') \<Longrightarrow>
     k \<notin> bucket_url ` set bs \<Longrightarrow> map_of mp' k = map_of mp k"
proof (induction bs arbitrary: mp tc ta w)
  case Nil
  then show ?case by simp
next
  case (Cons b bs)
  obtain y m j where b: "b = (y, m, j)" by (cases b)
  define url where "url = sitemap_url y m j"
  define urls where "urls = fst (fetch_sitemap L url w)"
  define w1 where "w1 = snd (fetch_url url w)"
  from Cons.prems(1) obtain cs where
    rest: "fst (for_buckets L rp bs (AList.update url cs mp, tc + length urls, ta + length cs) w1)
             = Inr (mp', tc', ta')"
    by (auto simp: b bucket_body_eq Let_def url_def urls_def w1_def split: sum.splits)
  from Cons.prems(2) have "k \<notin> bucket_url ` set bs" and "k \<noteq> url"
    by (auto simp: b bucket_url_def url_def)
  with Cons.IH [OF rest] show ?case
    by (simp add: update_conv')
qed

lemma failed_bucket_recorded:
  assumes fail: "fst (fetch_url (bucket_url b) w) = Inl e
           \<or> (fst (fetch_url (bucket_url b) w) = Inr content \<and> findall_loc L content = None)"
      and later: "bucket_url b \<notin> bucket_url ` set bs"
      and run: "fst (for_buckets L rp (b # bs) (sitemap_map, tc, ta) w) = Inr (mp', tc', ta')"
  shows "map_of mp' (bucket_url b) = Some []"
proof -
  from run have "fst (for_buckets L rp bs (AList.update (bucket_url b) [] sitemap_map, tc, ta)
             (snd (fetch_url (bucket_url b) w))) = Inr (mp', tc', ta')"
    unfolding for_buckets_failed_bucket [OF fail] .
  from for_buckets_keeps [OF this later] show ?thesis
    by (simp add: update_conv')
qed

text \<open>
  C7: \<open>extract_all_recipes\<close> treats the URLs one after the other, each adding to the
  two result lists on its own account. For one URL: when \<open>fetch_url\<close> raises, or the
  fetched page does not parse, the URL goes to \<open>js_heavy\<close> and no recipe is recorded;
  when the page is fetched and parsed and the URL contains \<open>/recipe/\<close>, exactly one
  recipe is recorded, with \<open>No title\<close> and \<open>No description\<close> where the selector finds
  nothing; otherwise nothing is recorded and \<open>js_heavy\<close> stays as it is.
\<close>

theorem extract_all_recipes_classifies:
  "extract_all_recipes B (u # us) w =
      (case extract_all_recipes B [u] w of
         ((r1, j1), w1) \<Rightarrow>
           (case extract_all_recipes B us w1 of
              ((rs, js), w2) \<Rightarrow> ((r1 @ rs, j1 @ js), w2)))
   \<and> extract_all_recipes B [u] w =
      (case fetch_url u w of
         (Inl e, w1) \<Rightarrow> (([], [u]), w1)
       | (Inr content, w1) \<Rightarrow>
           (case BeautifulSoup B content of
              None \<Rightarrow> (([], [u]), w1)
            | Some soup \<Rightarrow>
                if py_in ''/recipe/'' u
                then (([\<lparr>title = (case select_title B soup of Some t \<Rightarrow> t | None \<Rightarrow> ''No title''),
                         description = (case select_desc B soup of
                                          Some d \<Rightarrow> d | None \<Rightarrow> ''No description''),
                         link = u\<rparr>], []), w1)
                else (([], []), w1)))"
  using extract_all_recipes_Cons [of B u us w] extract_all_recipes_single [of B u w]
  by simp

theorem extract_all_recipes_classifies_witness:
  "fst (extract_all_recipes example_bs4
          [''https://www.bonappetit.com/recipe/gone'', ''https://www.bonappetit.com/recipe/pasta'',
           ''https://www.bonappetit.com/story/salt''] (quiet three_pages))
     = ([\<lparr>title = ''No title'', description = ''Fresh pasta.'',
          link = ''https://www.bonappetit.com/recipe/pasta''\<rparr>],
        [''https://www.bonappetit.com/recipe/gone''])"
proof -
  let ?gone = "''https://www.bonappetit.com/recipe/gone''"
  let ?rest = "[''https://www.bonappetit.com/recipe/pasta'', ''https://www.bonappetit.com/story/salt'']"
  have "fst (extract_all_recipes example_bs4 (?gone # ?rest) (quiet three_pages))
      = fst (case extract_all_recipes example_bs4 [?gone] (quiet three_pages) of
               ((r1, j1), w1) \<Rightarrow>
                 (case extract_all_recipes example_bs4 ?rest w1 of
                    ((rs, js), w2) \<Rightarrow> ((r1 @ rs, j1 @ js), w2)))"
    using extract_all_recipes_classifies [of example_bs4 ?gone ?rest "quiet three_pages"]
    by simp
  also have "\<dots> = ([\<lparr>title = ''No title'', description = ''Fresh pasta.'',
          link = ''https://www.bonappetit.com/recipe/pasta''\<rparr>], [?gone])"
    by code_simp
  finally show ?thesis .
qed

text \<open>
  C8: a bucket whose fetch raises or whose body is not XML is recorded with an empty
  list, adds nothing to the totals, and the loop goes on with the remaining buckets;
  the entry is still there, empty, in the mapping returned at the end. A URL whose
  fetch raises is appended to \<open>js_heavy\<close> and the loop goes on with the remaining
  URLs. Even when every request fails, \<open>get_content_urls\<close> returns a mapping with all
  buckets of the range, each empty, and \<open>extract_all_recipes\<close> returns all URLs in
  \<open>js_heavy\<close>.
\<close>

theorem failures_degrade_locally:
  "((fst (fetch_url (bucket_url b) w) = Inl e
      \<or> (fst (fetch_url (bucket_url b) w) = Inr content \<and> findall_loc L content = None))
     \<longrightarrow> for_buckets L rp (b # bs) (sitemap_map, tc, ta) w =
           for_buckets L rp bs (AList.update (bucket_url b) [] sitemap_map, tc, ta)
             (snd (fetch_url (bucket_url b) w))
         \<and> (bucket_url b \<notin> bucket_url ` set bs
              \<and> fst (for_buckets L rp (b # bs) (sitemap_map, tc, ta) w) = Inr (mp', tc', ta')
            \<longrightarrow> map_of mp' (bucket_url b) = Some []))
   \<and> (fst (fetch_url u w) = Inl e'
     \<longrightarrow> extract_loop B (u # us) (recipes, js_heavy) w =
           extract_loop B us (recipes, js_heavy @ [u]) (snd (fetch_url u w)))
   \<and> ((\<forall>n url. retried (net w n url))
     \<longrightarrow> fst (get_content_urls L rp sy sm sw ey em ew w)
           = Inr (map (\<lambda>b. (bucket_url b, [])) (buckets sy sm sw ey em ew), 0, 0)
         \<and> fst (extract_all_recipes B urls w) = ([], urls))"
  using for_buckets_failed_bucket [of b w e content L rp bs sitemap_map tc ta]
    failed_bucket_recorded [of b w e content L bs rp sitemap_map tc ta mp' tc' ta']
    extract_loop_failed_url [of u w e' B us recipes js_heavy]
    get_content_urls_all_fail [of w L rp sy sm sw ey em ew]
    extract_loop_all_fail [of w B urls "[]" "[]"]
  by (simp add: extract_all_recipes_def)

theorem failures_degrade_locally_witness:
  "fst (for_buckets example_lib (rules_for_all []) [(2024, 1, 1), (2024, 1, 2)] ([], 0, 0)
          (quiet html_then_sitemap))
     = Inr ([(sitemap_url 2024 1 1, []),
             (sitemap_url 2024 1 2, [''https://www.bonappetit.com/recipe/a''])], 1, 1)
   \<and> fst (extract_loop example_bs4
            [''https://www.bonappetit.com/recipe/gone'', ''https://www.bonappetit.com/story/salt'']
            ([], []) (quiet three_pages))
     = ([], [''https://www.bonappetit.com/recipe/gone''])
   \<and> fst (get_content_urls example_lib (rules_for_all []) 2024 1 3 2024 1 2 (quiet offline))
     = Inr ([(sitemap_url 2024 1 1, []), (sitemap_url 2024 1 2, [])], 0, 0)"
proof -
  let ?L = example_lib and ?rp = "rules_for_all []"
  let ?page = "''<html>Service unavailable</html>''"
  let ?gone = "''https://www.bonappetit.com/recipe/gone''"
  let ?salt = "''https://www.bonappetit.com/story/salt''"
  note t = failures_degrade_locally [where b = "(2024, 1, 1)" and w = "quiet html_then_sitemap"
      and content = ?page and L = ?L and rp = ?rp and bs = "[(2024, 1, 2)]"
      and sitemap_map = "[]" and tc = 0 and ta = 0]
  note t' = failures_degrade_locally [where w = "quiet three_pages" and e' = RetryError
      and u = ?gone and us = "[?salt]" and B = example_bs4 and recipes = "[]" and js_heavy = "[]"]
  note t'' = failures_degrade_locally [where w = "quiet offline" and L = ?L and rp = ?rp
      and sy = 2024 and sm = 1 and sw = 3 and ey = 2024 and em = 1 and ew = 2]
  have parse_fails: "fst (fetch_url (bucket_url (2024, 1, 1)) (quiet html_then_sitemap)) = Inr ?page
      \<and> findall_loc ?L ?page = None"
    by code_simp
  with t have "for_buckets ?L ?rp [(2024, 1, 1), (2024, 1, 2)] ([], 0, 0) (quiet html_then_sitemap)
      = for_buckets ?L ?rp [(2024, 1, 2)] (AList.update (bucket_url (2024, 1, 1)) [] [], 0, 0)
               (snd (fetch_url (bucket_url (2024, 1, 1)) (quiet html_then_sitemap)))"
    by blast
  moreover have "fst (for_buckets ?L ?rp [(2024, 1, 2)]
               (AList.update (bucket_url (2024, 1, 1)) [] [], 0, 0)
               (snd (fetch_url (bucket_url (2024, 1, 1)) (quiet html_then_sitemap))))
      = Inr ([(sitemap_url 2024 1 1, []),
              (sitemap_url 2024 1 2, [''https://www.bonappetit.com/recipe/a''])], 1, 1)"
    by code_simp
  ultimately have 1: "fst (for_buckets ?L ?rp [(2024, 1, 1), (2024, 1, 2)] ([], 0, 0)
          (quiet html_then_sitemap))
     = Inr ([(sitemap_url 2024 1 1, []),
             (sitemap_url 2024 1 2, [''https://www.bonappetit.com/recipe/a''])], 1, 1)"
    by (simp only:)
  have fetch_fails: "fst (fetch_url ?gone (quiet three_pages)) = Inl RetryError"
    by code_simp
  with t' have "extract_loop example_bs4 [?gone, ?salt] ([], []) (quiet three_pages)
      = extract_loop example_bs4 [?salt] ([], [] @ [?gone]) (snd (fetch_url ?gone (quiet three_pages)))"
    by blast
  moreover have "fst (extract_loop example_bs4 [?salt] ([], [] @ [?gone])
                        (snd (fetch_url ?gone (quiet three_pages))))
      = ([], [?gone])"
    by code_simp
  ultimately have 2: "fst (extract_loop example_bs4 [?gone, ?salt] ([], []) (quiet three_pages))
      = ([], [?gone])"
    by (simp only:)
  have all_fail: "\<forall>n url. retried (net (quiet offline) n url)"
    by (simp add: quiet_def offline_def retried_def attempt_result_def)
  with t'' have "fst (get_content_urls ?L ?rp 2024 1 3 2024 1 2 (quiet offline))
      = Inr (map (\<lambda>b. (bucket_url b, [])) (buckets 2024 1 3 2024 1 2), 0, 0)"
    by blast
  also have "\<dots> = Inr ([(sitemap_url 2024 1 1, []), (sitemap_url 2024 1 2, [])], 0, 0)"
    by (simp add: week_level_buckets bucket_url_def)
  finally have 3: "fst (get_content_urls ?L ?rp 2024 1 3 2024 1 2 (quiet offline))
     = Inr ([(sitemap_url 2024 1 1, []), (sitemap_url 2024 1 2, [])], 0, 0)" .
  from 1 2 3 show ?thesis by simp
qed

section \<open>Claims about the robots policy\<close>

lemma can_fetch_rules_for_all:
  "url_filename L url = Some filename \<Longrightarrow>
     can_fetch L (rules_for_all rules) ''*'' url
       = Inr (first_rule rules (if filename = [] then ''/'' else filename))"
  by (simp add: can_fetch_def rules_for_all_def Entry_allowance_def)

lemma parse_allow_first:
  "parse example_lib new_RobotFileParser
       [''User-agent: *'', ''Allow: /api/public/'', ''Disallow: /api/'']
     = Inr (rules_for_all [\<lparr>path = ''/api/public/'', allowance = True\<rparr>,
                            \<lparr>path = ''/api/'', allowance = False\<rparr>])"
  by code_simp

text \<open>
  C6, as stated, fails: \<open>can_fetch\<close> lets the first rule line that applies decide, in
  the order of the file. Read from a robots.txt that lists \<open>Disallow: /api/\<close> before
  \<open>Allow: /api/public/\<close>, the rule set contains both rules, and \<open>can_fetch\<close> refuses a
  URL under \<open>/api/public/\<close>.
\<close>

theorem can_fetch_disallow_first_counterexample:
  "parse example_lib new_RobotFileParser
       [''User-agent: *'', ''Disallow: /api/'', ''Allow: /api/public/'']
     = Inr (rules_for_all [\<lparr>path = ''/api/'', allowance = False\<rparr>,
                            \<lparr>path = ''/api/public/'', allowance = True\<rparr>])
   \<and> can_fetch example_lib (rules_for_all [\<lparr>path = ''/api/'', allowance = False\<rparr>,
                                     \<lparr>path = ''/api/public/'', allowance = True\<rparr>]) ''*''
      ''https://www.bonappetit.com/api/public/x'' = Inr False"
  by code_simp

text \<open>
  C6, amended: for the agent \<open>*\<close> and a robots.txt whose group for \<open>*\<close> holds the two
  rules, \<open>can_fetch\<close> applies the first rule whose path is a prefix of the URL's
  filename. With \<open>Allow: /api/public/\<close> listed first it allows a URL under
  \<open>/api/public/\<close> and refuses every other URL under \<open>/api/\<close>; with \<open>Disallow: /api/\<close>
  listed first it refuses every URL under \<open>/api/\<close>.
\<close>

theorem can_fetch_first_match:
  assumes "url_filename L url = Some filename"
  shows "can_fetch L (rules_for_all [\<lparr>path = ''/api/public/'', allowance = True\<rparr>,
                                     \<lparr>path = ''/api/'', allowance = False\<rparr>]) ''*'' url
           = Inr (prefix ''/api/public/'' filename \<or> \<not> prefix ''/api/'' filename)
       \<and> can_fetch L (rules_for_all [\<lparr>path = ''/api/'', allowance = False\<rparr>,
                                     \<lparr>path = ''/api/public/'', allowance = True\<rparr>]) ''*'' url
           = Inr (\<not> prefix ''/api/'' filename)"
proof -
  have "prefix ''/api/public/'' filename \<Longrightarrow> prefix ''/api/'' filename"
    by (auto simp: prefix_def)
  then show ?thesis
    by (auto simp: can_fetch_rules_for_all [OF assms] RuleLine_applies_to_def)
qed

theorem can_fetch_first_match_witness:
  "parse example_lib new_RobotFileParser
       [''User-agent: *'', ''Allow: /api/public/'', ''Disallow: /api/'']
     = Inr (rules_for_all [\<lparr>path = ''/api/public/'', allowance = True\<rparr>,
                            \<lparr>path = ''/api/'', allowance = False\<rparr>])
   \<and> can_fetch example_lib (rules_for_all [\<lparr>path = ''/api/public/'', allowance = True\<rparr>,
                                     \<lparr>path = ''/api/'', allowance = False\<rparr>]) ''*''
      ''https://www.bonappetit.com/api/public/x'' = Inr True
   \<and> can_fetch example_lib (rules_for_all [\<lparr>path = ''/api/public/'', allowance = True\<rparr>,
                                     \<lparr>path = ''/api/'', allowance = False\<rparr>]) ''*''
      ''https://www.bonappetit.com/api/secret'' = Inr False
   \<and> can_fetch example_lib (rules_for_all [\<lparr>path = ''/api/'', allowance = False\<rparr>,
                                     \<lparr>path = ''/api/public/'', allowance = True\<rparr>]) ''*''
      ''https://www.bonappetit.com/api/secret'' = Inr False"
proof -
  have 1: "url_filename example_lib ''https://www.bonappetit.com/api/public/x'' = Some ''/api/public/x''"
    by (simp add: example_lib_def)
  have 2: "url_filename example_lib ''https://www.bonappetit.com/api/secret'' = Some ''/api/secret''"
    by (simp add: example_lib_def)
  from can_fetch_first_match [OF 1] can_fetch_first_match [OF 2] parse_allow_first show ?thesis
    by simp
qed

section \<open>Claims about the robots.txt downloads\<close>









end
